theory Spec2Isabelle
  imports Main
begin

section \<open>JavaScript values\<close>

text \<open>
  The messages exchanged with the native messaging host and with the popup are JSON
  values. Numbers are integers here: the handlers only test a number for truthiness.
  An object is a list of properties; a property lookup takes the first binding of a name.
\<close>

datatype jsval =
    JUndefined
  | JNull
  | JBool bool
  | JNum int
  | JStr string
  | JArr "jsval list"
  | JObj "(string \<times> jsval) list"

datatype js_error = TypeError | Error

text \<open>The truthiness test that \<^verbatim>\<open>if (x)\<close>, \<^verbatim>\<open>!x\<close> and \<^verbatim>\<open>x && y\<close> apply.\<close>

fun truthy :: "jsval \<Rightarrow> bool" where
  "truthy JUndefined = False"
| "truthy JNull = False"
| "truthy (JBool b) = b"
| "truthy (JNum n) = (n \<noteq> 0)"
| "truthy (JStr s) = (s \<noteq> [])"
| "truthy (JArr xs) = True"
| "truthy (JObj ps) = True"

fun typeof :: "jsval \<Rightarrow> string" where
  "typeof JUndefined = ''undefined''"
| "typeof JNull = ''object''"
| "typeof (JBool b) = ''boolean''"
| "typeof (JNum n) = ''number''"
| "typeof (JStr s) = ''string''"
| "typeof (JArr xs) = ''object''"
| "typeof (JObj ps) = ''object''"

text \<open>
  Reading a property \<^verbatim>\<open>v.k\<close>. On \<^verbatim>\<open>undefined\<close> and \<^verbatim>\<open>null\<close> it throws a
  TypeError. The scripts read only the properties \<^verbatim>\<open>type\<close> and \<^verbatim>\<open>data\<close>, which no
  primitive and no array has, so there the result is \<^verbatim>\<open>undefined\<close>.
\<close>

fun get_prop :: "jsval \<Rightarrow> string \<Rightarrow> js_error + jsval" where
  "get_prop JUndefined k = Inl TypeError"
| "get_prop JNull k = Inl TypeError"
| "get_prop (JObj ps) k = Inr (case map_of ps k of None \<Rightarrow> JUndefined | Some v \<Rightarrow> v)"
| "get_prop (JBool b) k = Inr JUndefined"
| "get_prop (JNum n) k = Inr JUndefined"
| "get_prop (JStr s) k = Inr JUndefined"
| "get_prop (JArr xs) k = Inr JUndefined"

text \<open>
  The string that a template literal \<^verbatim>\<open>`${v}`\<close> puts in the place of a value: the
  decimal digits of a number, the elements of an array joined by commas, with nothing for
  an element that is \<^verbatim>\<open>null\<close> or \<^verbatim>\<open>undefined\<close>.
\<close>

fun digits :: "nat \<Rightarrow> string" where
  "digits n =
     (if n < 10 then [''0123456789'' ! n]
      else digits (n div 10) @ [''0123456789'' ! (n mod 10)])"

declare digits.simps [simp del]

fun to_string :: "jsval \<Rightarrow> string" and join_elements :: "jsval list \<Rightarrow> string" where
  "to_string JUndefined = ''undefined''"
| "to_string JNull = ''null''"
| "to_string (JBool b) = (if b then ''true'' else ''false'')"
| "to_string (JNum n) = (if n < 0 then ''-'' @ digits (nat (- n)) else digits (nat n))"
| "to_string (JStr s) = s"
| "to_string (JArr xs) = join_elements xs"
| "to_string (JObj ps) = ''[object Object]''"
| "join_elements [] = []"
| "join_elements [x] = (if x = JUndefined \<or> x = JNull then [] else to_string x)"
| "join_elements (x # y # ys) =
     (if x = JUndefined \<or> x = JNull then [] else to_string x) @ '','' @ join_elements (y # ys)"

section \<open>URL classification\<close>

definition SPECIAL_PROTOCOLS :: "string list" where
  "SPECIAL_PROTOCOLS =
     [''about:'', ''chrome:'', ''chrome-extension:'', ''edge:'', ''file:'', ''moz-extension:'']"

text \<open>\<^verbatim>\<open>s.startsWith(p)\<close> on strings.\<close>

definition startsWith :: "string \<Rightarrow> string \<Rightarrow> bool" where
  "startsWith s p = (take (length p) s = p)"

text \<open>
  A tab's URL is a string or \<^verbatim>\<open>undefined\<close> (\<open>None\<close>). The popup's \<^verbatim>\<open>isSpecialUrl\<close>:
  \<^verbatim>\<open>if (!url) return true; return SPECIAL_PROTOCOLS.some((protocol) => url.startsWith(protocol));\<close>
\<close>

definition isSpecialUrl :: "string option \<Rightarrow> bool" where
  "isSpecialUrl url =
     (case url of
        None \<Rightarrow> True
      | Some u \<Rightarrow> if u = [] then True else list_ex (\<lambda>protocol. startsWith u protocol) SPECIAL_PROTOCOLS)"

text \<open>
  The background script computes its own local constant \<^verbatim>\<open>isSpecialUrl\<close>, by the same
  expression in \<^verbatim>\<open>updateIconState\<close> and in the debounced menu rebuild:
  \<^verbatim>\<open>SPECIAL_PROTOCOLS.some((p) => url && url.startsWith(p))\<close>.
\<close>

definition isSpecialUrl_bg :: "string option \<Rightarrow> bool" where
  "isSpecialUrl_bg url =
     list_ex (\<lambda>p. case url of None \<Rightarrow> False | Some u \<Rightarrow> u \<noteq> [] \<and> startsWith u p) SPECIAL_PROTOCOLS"

text \<open>
  The specification speaks of the scheme of a URL. Following its words: the scheme of a
  URL is its text up to and including the first colon (as the entries of
  \<^verbatim>\<open>SPECIAL_PROTOCOLS\<close> are written); a string with no colon has none.
\<close>

definition url_scheme :: "string \<Rightarrow> string option" where
  "url_scheme u =
     (if CHR '':'' \<in> set u then Some (takeWhile (\<lambda>c. c \<noteq> CHR '':'') u @ '':'') else None)"

definition scheme_is_special :: "string \<Rightarrow> bool" where
  "scheme_is_special u = (case url_scheme u of None \<Rightarrow> False | Some sch \<Rightarrow> sch \<in> set SPECIAL_PROTOCOLS)"

section \<open>The background script and the browser it runs in\<close>

text \<open>
  The two module-level variables of the background script, \<^verbatim>\<open>nmhPort\<close> and
  \<^verbatim>\<open>updateContextMenuTimeout\<close>, and the part of the browser the script acts on: the
  native-messaging ports it has opened, \<^verbatim>\<open>browser.storage.local\<close>, the timers, the active
  tab, the context menu, and the handlers that are suspended at an \<^verbatim>\<open>await\<close>. The
  script runs on a single-threaded event loop: a listener runs without interruption up to
  an \<^verbatim>\<open>await\<close>, and what follows the \<^verbatim>\<open>await\<close> runs when its promise has settled.
  The \<^verbatim>\<open>await\<close> of a write to the store, in \<^verbatim>\<open>handleNMHMessage\<close>, is a suspension of
  the handler, and other events may come before the handler goes on. The awaits of
  \<^verbatim>\<open>tabs.get\<close>, \<^verbatim>\<open>tabs.query\<close> and the context-menu calls are taken to settle,
  fulfilled or rejected, before the next event.
\<close>

datatype disconnect_listener = OnNMHDisconnect

datatype message_listener = HandleNMHMessage

record port =
  port_open :: bool
  onDisconnect :: "disconnect_listener list"
  onMessage :: "message_listener list"

record tab =
  tab_id :: nat
  tab_url :: "string option"

text \<open>
  What happens between the script and the browser, in the order it happens: the calls
  of the script that take effect, and the timers that fire.
\<close>

datatype effect =
    ConsoleLog string
  | ConsoleWarn string
  | ConsoleError string
  | ConnectNative string nat
  | PortDisconnect nat
  | PostMessage nat jsval
  | StorageSet "(string \<times> jsval) list"
  | ClearTimeout "nat option"
  | SetTimeout nat nat
  | TimerFired nat
  | MenusRemoveAll
  | TabsQuery
  | MenusCreate string string "string list"
  | ActionEnable nat
  | ActionDisable nat
  | ActionOpenPopup

text \<open>
  A failure of the browser API that the try/catch of the menu rebuild expects. The field
  \<open>awaiting\<close> of the state holds, oldest first, the handlers of \<^verbatim>\<open>devices\<close> messages
  that are suspended at their \<^verbatim>\<open>await\<close>, each as the outcome of the write it awaits
  (\<open>True\<close>: the store has taken the write).
\<close>

datatype api_fault = NoFault | RemoveAllFails | QueryFails | CreateFails

record bg =
  nmhPort :: "nat option"
  updateContextMenuTimeout :: "nat option"
  ports :: "port list"
  storage :: "string \<rightharpoonup> jsval"
  timers :: "(nat \<times> nat) list"
  next_timer :: nat
  now :: nat
  active_tab :: "tab option"
  menus :: "string list"
  fault :: api_fault
  awaiting :: "bool list"
  trace :: "effect list"

definition APPLICATION_ID :: string where
  "APPLICATION_ID = ''org.gnome.shell.extensions.gsconnect''"

definition emit :: "effect \<Rightarrow> bg \<Rightarrow> bg" where
  "emit e s = s\<lparr>trace := trace s @ [e]\<rparr>"

subsection \<open>Browser primitives\<close>

text \<open>
  \<^verbatim>\<open>browser.storage.local.set(items)\<close> writes the given keys and leaves every other key
  as it is; writes take effect in the order of the calls. \<open>storage_local_set\<close> is the
  write under the contract of the store (\<^verbatim>\<open>set(partialRecord) -> void\<close>), as
  \<^verbatim>\<open>onNMHDisconnect\<close> calls it without reading the promise. Where the script awaits
  the promise, \<open>storage_local_set_awaited\<close>, the store takes the write (\<open>ack\<close>) or
  rejects it and is left as it was; the promise settles later, fulfilled or rejected.
\<close>

definition storage_local_set :: "(string \<times> jsval) list \<Rightarrow> bg \<Rightarrow> bg" where
  "storage_local_set items s =
     emit (StorageSet items) (s\<lparr>storage := fold (\<lambda>(k, v) m. m(k \<mapsto> v)) items (storage s)\<rparr>)"

definition storage_local_set_awaited :: "bool \<Rightarrow> (string \<times> jsval) list \<Rightarrow> bg \<Rightarrow> bg" where
  "storage_local_set_awaited ack items s = (if ack then storage_local_set items s else s)"

text \<open>
  \<^verbatim>\<open>browser.runtime.connectNative(application)\<close> returns a fresh port, with no
  listeners, or throws (the argument \<open>ok\<close> says which). A port is named by its index in
  \<open>ports\<close>.
\<close>

definition connectNative :: "string \<Rightarrow> bool \<Rightarrow> bg \<Rightarrow> (js_error + nat) \<times> bg" where
  "connectNative application ok s =
     (if ok
      then (Inr (length (ports s)),
            emit (ConnectNative application (length (ports s)))
              (s\<lparr>ports := ports s @ [\<lparr>port_open = True, onDisconnect = [], onMessage = []\<rparr>]\<rparr>))
      else (Inl Error, s))"

text \<open>
  \<^verbatim>\<open>port.disconnect()\<close> closes the port; the browser does not fire \<^verbatim>\<open>onDisconnect\<close> at
  the end that called it.
\<close>

definition port_disconnect :: "nat \<Rightarrow> bg \<Rightarrow> bg" where
  "port_disconnect p s =
     emit (PortDisconnect p)
       (if p < length (ports s)
        then s\<lparr>ports := (ports s)[p := (ports s ! p)\<lparr>port_open := False\<rparr>]\<rparr>
        else s)"

definition addListener_onDisconnect :: "nat \<Rightarrow> disconnect_listener \<Rightarrow> bg \<Rightarrow> bg" where
  "addListener_onDisconnect p l s =
     (if p < length (ports s)
      then s\<lparr>ports := (ports s)[p := (ports s ! p)\<lparr>onDisconnect := onDisconnect (ports s ! p) @ [l]\<rparr>]\<rparr>
      else s)"

definition addListener_onMessage :: "nat \<Rightarrow> message_listener \<Rightarrow> bg \<Rightarrow> bg" where
  "addListener_onMessage p l s =
     (if p < length (ports s)
      then s\<lparr>ports := (ports s)[p := (ports s ! p)\<lparr>onMessage := onMessage (ports s ! p) @ [l]\<rparr>]\<rparr>
      else s)"

text \<open>\<^verbatim>\<open>port.postMessage(m)\<close> throws on a port that is disconnected.\<close>

definition postMessage :: "nat \<Rightarrow> jsval \<Rightarrow> bg \<Rightarrow> js_error option \<times> bg" where
  "postMessage p m s =
     (if p < length (ports s) \<and> port_open (ports s ! p)
      then (None, emit (PostMessage p m) s)
      else (Some Error, s))"

text \<open>
  \<^verbatim>\<open>clearTimeout(h)\<close> cancels the pending timer \<open>h\<close>, if there is one; \<^verbatim>\<open>setTimeout\<close>
  returns a fresh handle. All timers of the script run the same callback, so a pending
  timer is its handle and the time it is due.
\<close>

definition clearTimeout :: "nat option \<Rightarrow> bg \<Rightarrow> bg" where
  "clearTimeout h s =
     emit (ClearTimeout h) (s\<lparr>timers := filter (\<lambda>(i, due). Some i \<noteq> h) (timers s)\<rparr>)"

definition setTimeout :: "nat \<Rightarrow> bg \<Rightarrow> nat \<times> bg" where
  "setTimeout delay s =
     (next_timer s,
      emit (SetTimeout (next_timer s) delay)
        (s\<lparr>timers := timers s @ [(next_timer s, now s + delay)], next_timer := Suc (next_timer s)\<rparr>))"

definition contextMenus_removeAll :: "bg \<Rightarrow> js_error option \<times> bg" where
  "contextMenus_removeAll s =
     (if fault s = RemoveAllFails then (Some Error, s)
      else (None, emit MenusRemoveAll (s\<lparr>menus := []\<rparr>)))"

text \<open>\<^verbatim>\<open>browser.tabs.query({active: true, currentWindow: true})\<close>.\<close>

definition tabs_query :: "bg \<Rightarrow> (js_error + tab list) \<times> bg" where
  "tabs_query s =
     (if fault s = QueryFails then (Inl Error, s)
      else (Inr (case active_tab s of None \<Rightarrow> [] | Some t \<Rightarrow> [t]), emit TabsQuery s))"

text \<open>
  \<^verbatim>\<open>browser.contextMenus.create({id, title, contexts})\<close>. Creating an entry under an id
  that exists is an error. The context menu is kept as the ids of its entries.
\<close>

definition contextMenus_create :: "string \<Rightarrow> string \<Rightarrow> string list \<Rightarrow> bg \<Rightarrow> js_error option \<times> bg" where
  "contextMenus_create mid title contexts s =
     (if fault s = CreateFails \<or> mid \<in> set (menus s) then (Some Error, s)
      else (None, emit (MenusCreate mid title contexts) (s\<lparr>menus := menus s @ [mid]\<rparr>)))"

subsection \<open>The Session Manager\<close>

text \<open>
  \<^verbatim>\<open>onNMHDisconnect\<close>: \<^verbatim>\<open>nmhPort = null; browser.storage.local.set({ devices: [], connected: false });\<close>
\<close>

definition onNMHDisconnect :: "bg \<Rightarrow> bg" where
  "onNMHDisconnect s =
     storage_local_set [(''devices'', JArr []), (''connected'', JBool False)] (s\<lparr>nmhPort := None\<rparr>)"

text \<open>
  \<^verbatim>\<open>connectToNMH\<close>: disconnect the port at hand, open a new one, register the two
  listeners on it; whatever is thrown is logged and handled as a disconnect.
\<close>

definition connectToNMH :: "bool \<Rightarrow> bg \<Rightarrow> bg" where
  "connectToNMH ok s =
     (let s1 = (case nmhPort s of None \<Rightarrow> s | Some p \<Rightarrow> port_disconnect p s) in
      case connectNative APPLICATION_ID ok s1 of
        (Inl e, s2) \<Rightarrow> onNMHDisconnect (emit (ConsoleError ''Failed to connect to NMH.'') s2)
      | (Inr p, s2) \<Rightarrow>
          addListener_onMessage p HandleNMHMessage
            (addListener_onDisconnect p OnNMHDisconnect (s2\<lparr>nmhPort := Some p\<rparr>)))"

text \<open>\<^verbatim>\<open>sendMessageToNMH\<close> returns whether the message was posted.\<close>

definition sendMessageToNMH :: "jsval \<Rightarrow> bg \<Rightarrow> bool \<times> bg" where
  "sendMessageToNMH message s =
     (case nmhPort s of
        None \<Rightarrow> (False, emit (ConsoleError ''NMH port is not connected. Message not sent.'') s)
      | Some p \<Rightarrow>
          (case postMessage p message s of
             (None, s1) \<Rightarrow> (True, s1)
           | (Some e, s1) \<Rightarrow> (False, emit (ConsoleError ''Failed to post message to NMH.'') s1)))"

subsection \<open>The UI Synchronizer\<close>

text \<open>The callback that \<^verbatim>\<open>updateContextMenu\<close> hands to \<^verbatim>\<open>setTimeout\<close>: the menu rebuild.\<close>

definition CONTEXT_TYPES :: "string list" where
  "CONTEXT_TYPES = [''audio'', ''frame'', ''image'', ''link'', ''page'', ''video'']"

definition updateContextMenu_callback :: "bg \<Rightarrow> bg" where
  "updateContextMenu_callback s =
     (case contextMenus_removeAll s of
        (Some e, s1) \<Rightarrow> emit (ConsoleError ''Failed to update context menu:'') s1
      | (None, s1) \<Rightarrow>
          (case tabs_query s1 of
             (Inl e, s2) \<Rightarrow> emit (ConsoleError ''Failed to update context menu:'') s2
           | (Inr tabs, s2) \<Rightarrow>
               (let currentTabUrl = (case tabs of [] \<Rightarrow> None | t # ts \<Rightarrow> tab_url t) in
                if \<not> isSpecialUrl_bg currentTabUrl
                then (case contextMenus_create ''openPopup'' ''Send with GSConnect'' CONTEXT_TYPES s2 of
                        (Some e, s3) \<Rightarrow> emit (ConsoleError ''Failed to update context menu:'') s3
                      | (None, s3) \<Rightarrow> s3)
                else s2)))"

text \<open>
  \<^verbatim>\<open>updateContextMenu(delay = 250)\<close>: \<^verbatim>\<open>clearTimeout(updateContextMenuTimeout);
  updateContextMenuTimeout = setTimeout(callback, delay)\<close>. \<open>None\<close> is a call without
  argument.
\<close>

definition updateContextMenu :: "nat option \<Rightarrow> bg \<Rightarrow> bg" where
  "updateContextMenu delay s =
     (let d = (case delay of None \<Rightarrow> 250 | Some d \<Rightarrow> d);
          s1 = clearTimeout (updateContextMenuTimeout s) s;
          (h, s2) = setTimeout d s1
      in s2\<lparr>updateContextMenuTimeout := Some h\<rparr>)"

definition updateIconState :: "nat \<Rightarrow> string option \<Rightarrow> bg \<Rightarrow> bg" where
  "updateIconState tabId url s =
     (if isSpecialUrl_bg url then emit (ActionDisable tabId) s else emit (ActionEnable tabId) s)"

definition handleContextMenuClick :: "string \<Rightarrow> bg \<Rightarrow> bg" where
  "handleContextMenuClick menuItemId s =
     (if menuItemId = ''openPopup'' then emit ActionOpenPopup s else s)"

subsection \<open>The handlers of messages\<close>

text \<open>
  A handler returns the exception that escapes it, if one does, and the state it leaves.
  \<^verbatim>\<open>handleNMHMessage\<close> handles a message of the native messaging host. It is an
  \<^verbatim>\<open>async\<close> function with one \<^verbatim>\<open>await\<close>, in the \<^verbatim>\<open>devices\<close> branch:
  \<^verbatim>\<open>await browser.storage.local.set({devices: message.data, connected: true}); updateContextMenu();\<close>
  \<open>handleNMHMessage_sync\<close> is the handler up to that \<^verbatim>\<open>await\<close>: it finishes, or it
  has called \<^verbatim>\<open>set\<close> and is suspended. \<open>handleNMHMessage_cont\<close> is what follows the
  \<^verbatim>\<open>await\<close> once the promise has settled: fulfilled, \<^verbatim>\<open>updateContextMenu()\<close> is called;
  rejected, the rejection escapes the handler (no try surrounds the \<^verbatim>\<open>await\<close>) and
  nothing more is done.
\<close>

datatype handler_state = Finished "js_error option" | AwaitingWrite

definition handleNMHMessage_sync :: "bool \<Rightarrow> jsval \<Rightarrow> bg \<Rightarrow> handler_state \<times> bg" where
  "handleNMHMessage_sync ack message s =
     (if \<not> truthy message
      then (Finished None, emit (ConsoleError ''Invalid message received from NMH.'') s)
      else
        (case get_prop message ''type'' of
           Inl e \<Rightarrow> (Finished (Some e), s)
         | Inr ty \<Rightarrow>
             (if typeof ty \<noteq> ''string''
              then (Finished None, emit (ConsoleError ''Invalid message received from NMH.'') s)
              else if ty = JStr ''connected'' then
                (case get_prop message ''data'' of
                   Inl e \<Rightarrow> (Finished (Some e), s)
                 | Inr d \<Rightarrow>
                     (if d = JBool True
                      then (Finished None, snd (sendMessageToNMH (JObj [(''type'', JStr ''devices'')]) s))
                      else (Finished None, s)))
              else if ty = JStr ''devices'' then
                (case get_prop message ''data'' of
                   Inl e \<Rightarrow> (Finished (Some e), s)
                 | Inr d \<Rightarrow>
                     (AwaitingWrite,
                      storage_local_set_awaited ack [(''devices'', d), (''connected'', JBool True)] s))
              else
                (Finished None,
                 emit (ConsoleWarn (''Unknown message type received: '' @ to_string ty)) s))))"

definition handleNMHMessage_cont :: "bool \<Rightarrow> bg \<Rightarrow> js_error option \<times> bg" where
  "handleNMHMessage_cont ack s = (if ack then (None, updateContextMenu None s) else (Some Error, s))"

text \<open>
  \<open>handleNMHMessage\<close> is the handler run from its call to its end with the write
  acknowledged: the store takes the write and the promise is fulfilled before anything
  else happens.
\<close>

definition handleNMHMessage :: "jsval \<Rightarrow> bg \<Rightarrow> js_error option \<times> bg" where
  "handleNMHMessage message s =
     (case handleNMHMessage_sync True message s of
        (Finished r, s1) \<Rightarrow> (r, s1)
      | (AwaitingWrite, s1) \<Rightarrow> handleNMHMessage_cont True s1)"

text \<open>
  \<^verbatim>\<open>handleRuntimeMessage(message, sender)\<close> handles a message of another part of the
  extension; of the sender it reads \<^verbatim>\<open>sender.tab\<close>.
\<close>

definition handleRuntimeMessage :: "jsval \<Rightarrow> tab option \<Rightarrow> bg \<Rightarrow> js_error option \<times> bg" where
  "handleRuntimeMessage message sender_tab s =
     (let s0 = emit (ConsoleLog ''Received message:'') s in
      if typeof message \<noteq> ''object'' \<or> message = JNull
      then (None, emit (ConsoleWarn ''Received invalid message.'') s0)
      else
        (case get_prop message ''type'' of
           Inl e \<Rightarrow> (Some e, s0)
         | Inr ty \<Rightarrow>
             (if ty = JStr ''share'' then
                (case sender_tab of
                   Some t \<Rightarrow>
                     (None, emit (ConsoleWarn ''Received a 'share' message from a tab. Ignoring.'') s0)
                 | None \<Rightarrow>
                     (case sendMessageToNMH message s0 of
                        (True, s1) \<Rightarrow> (None, s1)
                      | (False, s1) \<Rightarrow>
                          (None, emit (ConsoleError ''Failed to send 'share' message to NMH.'') s1)))
              else (None, emit (ConsoleWarn (''Received unknown message type: '' @ to_string ty)) s0))))"

text \<open>
  \<^verbatim>\<open>initializeState\<close>, the listener of \<^verbatim>\<open>onInstalled\<close> and \<^verbatim>\<open>onStartup\<close>. Its
  \<^verbatim>\<open>tabs.query\<close> stands outside any try.
\<close>

definition initializeState :: "bool \<Rightarrow> bg \<Rightarrow> js_error option \<times> bg" where
  "initializeState ok s =
     (case tabs_query (connectToNMH ok s) of
        (Inl e, s1) \<Rightarrow> (Some e, s1)
      | (Inr tabs, s1) \<Rightarrow>
          (case tabs of
             [] \<Rightarrow> (None, s1)
           | t # ts \<Rightarrow> (None, updateIconState (tab_id t) (tab_url t) s1)))"

subsection \<open>The popup\<close>

text \<open>
  What \<^verbatim>\<open>renderPopupUI\<close> shows, from the current tab and the two keys it reads of the
  store.
\<close>

datatype popup_view = StatusMessage string | DeviceList "jsval list"

definition renderPopupUI :: "tab option \<Rightarrow> (string \<rightharpoonup> jsval) \<Rightarrow> popup_view" where
  "renderPopupUI currentTab st =
     (case currentTab of
        None \<Rightarrow> StatusMessage ''Sharing is not available on this page.''
      | Some t \<Rightarrow>
          if isSpecialUrl (tab_url t) then StatusMessage ''Sharing is not available on this page.''
          else if st ''connected'' = Some (JBool False) then StatusMessage ''GSConnect is not connected.''
          else
            (case st ''devices'' of
               Some (JArr (d # ds)) \<Rightarrow> DeviceList (d # ds)
             | _ \<Rightarrow> StatusMessage ''No devices found.''))"

subsection \<open>Events\<close>

text \<open>
  What the browser delivers to the background script. \<open>OnInstalled\<close> and \<open>OnStartup\<close>
  say whether \<^verbatim>\<open>connectNative\<close> will succeed; \<open>PortMessage\<close> and \<open>PortDisconnected\<close>
  come from the native host's end of a port and reach the listeners of an open port only;
  \<open>TabActivated\<close> and \<open>TabUpdated\<close> also change the browser's active tab; \<open>Advance\<close>
  lets time pass, and the timers that fall due run.

  A message of the native host is handled in one of two ways. \<open>PortMessage p m\<close>: the
  handler runs to its end, the write it awaits (if any) being acknowledged before the next
  event. \<open>PortMessageBegins p m ack\<close>: the handler runs up to its \<^verbatim>\<open>await\<close> and, if
  it reaches it, is suspended, the store having taken its write or not (\<open>ack\<close>); other
  events may follow; \<open>WriteSettles\<close>: the promise of the oldest suspended handler
  settles and the handler goes on. \<open>TabActivatedGetFails\<close>: a tab is activated and the
  \<^verbatim>\<open>browser.tabs.get\<close> of the listener rejects.
\<close>

datatype event =
    OnInstalled bool
  | OnStartup bool
  | PortMessage nat jsval
  | PortDisconnected nat
  | RuntimeMessage jsval "tab option"
  | MenuClicked string
  | TabActivated tab
  | TabUpdated nat "string option"
  | Advance nat
  | SetFault api_fault
  | PortMessageBegins nat jsval bool
  | WriteSettles
  | TabActivatedGetFails nat

text \<open>
  The listener of \<^verbatim>\<open>tabs.onActivated\<close>:
  \<^verbatim>\<open>const tab = await browser.tabs.get(activeInfo.tabId); updateIconState(tab.id, tab.url); updateContextMenu();\<close>
  with what \<^verbatim>\<open>tabs.get\<close> gives, a tab or a rejection, which escapes the listener.
\<close>

definition onActivated :: "js_error + tab \<Rightarrow> bg \<Rightarrow> js_error option \<times> bg" where
  "onActivated got s =
     (case got of
        Inl e \<Rightarrow> (Some e, s)
      | Inr t \<Rightarrow> (None, updateContextMenu None (updateIconState (tab_id t) (tab_url t) s)))"

definition run_timer :: "nat \<times> nat \<Rightarrow> bg \<Rightarrow> bg" where
  "run_timer tm s =
     (if tm \<in> set (timers s)
      then updateContextMenu_callback (emit (TimerFired (fst tm)) (s\<lparr>timers := removeAll tm (timers s)\<rparr>))
      else s)"

definition advance :: "nat \<Rightarrow> bg \<Rightarrow> bg" where
  "advance d s =
     (fold run_timer (sort_key snd (filter (\<lambda>(i, due). due \<le> now s + d) (timers s))) s)
       \<lparr>now := now s + d\<rparr>"

definition deliver_message :: "nat \<Rightarrow> jsval \<Rightarrow> bg \<Rightarrow> bg" where
  "deliver_message p m s =
     (if p < length (ports s) \<and> port_open (ports s ! p)
      then fold (\<lambda>l s'. case l of HandleNMHMessage \<Rightarrow> snd (handleNMHMessage m s'))
             (onMessage (ports s ! p)) s
      else s)"

definition deliver_message_begin :: "bool \<Rightarrow> nat \<Rightarrow> jsval \<Rightarrow> bg \<Rightarrow> bg" where
  "deliver_message_begin ack p m s =
     (if p < length (ports s) \<and> port_open (ports s ! p)
      then fold (\<lambda>l s'. case l of HandleNMHMessage \<Rightarrow>
                   (case handleNMHMessage_sync ack m s' of
                      (Finished r, s1) \<Rightarrow> s1
                    | (AwaitingWrite, s1) \<Rightarrow> s1\<lparr>awaiting := awaiting s1 @ [ack]\<rparr>))
             (onMessage (ports s ! p)) s
      else s)"

definition write_settles :: "bg \<Rightarrow> bg" where
  "write_settles s =
     (case awaiting s of
        [] \<Rightarrow> s
      | ack # rest \<Rightarrow> snd (handleNMHMessage_cont ack (s\<lparr>awaiting := rest\<rparr>)))"

definition deliver_disconnect :: "nat \<Rightarrow> bg \<Rightarrow> bg" where
  "deliver_disconnect p s =
     (if p < length (ports s) \<and> port_open (ports s ! p)
      then fold (\<lambda>l s'. case l of OnNMHDisconnect \<Rightarrow> onNMHDisconnect s')
             (onDisconnect (ports s ! p))
             (s\<lparr>ports := (ports s)[p := (ports s ! p)\<lparr>port_open := False\<rparr>]\<rparr>)
      else s)"

definition tab_navigated :: "nat \<Rightarrow> string option \<Rightarrow> bg \<Rightarrow> bg" where
  "tab_navigated tabId url s =
     (case (active_tab s, url) of
        (Some t, Some u) \<Rightarrow> if tab_id t = tabId then s\<lparr>active_tab := Some (t\<lparr>tab_url := Some u\<rparr>)\<rparr> else s
      | _ \<Rightarrow> s)"

fun step :: "event \<Rightarrow> bg \<Rightarrow> bg" where
  "step (OnInstalled ok) s = snd (initializeState ok s)"
| "step (OnStartup ok) s = snd (initializeState ok s)"
| "step (PortMessage p m) s = deliver_message p m s"
| "step (PortDisconnected p) s = deliver_disconnect p s"
| "step (RuntimeMessage m sender_tab) s = snd (handleRuntimeMessage m sender_tab s)"
| "step (MenuClicked menuItemId) s = handleContextMenuClick menuItemId s"
| "step (TabActivated t) s = snd (onActivated (Inr t) (s\<lparr>active_tab := Some t\<rparr>))"
| "step (TabUpdated tabId url) s =
     (let s1 = tab_navigated tabId url s in
      if url \<noteq> None \<and> url \<noteq> Some []
      then updateContextMenu None (updateIconState tabId url s1)
      else s1)"
| "step (Advance d) s = advance d s"
| "step (SetFault f) s = s\<lparr>fault := f\<rparr>"
| "step (PortMessageBegins p m ack) s = deliver_message_begin ack p m s"
| "step WriteSettles s = write_settles s"
| "step (TabActivatedGetFails tabId) s = snd (onActivated (Inl Error) s)"

definition run :: "event list \<Rightarrow> bg \<Rightarrow> bg" where
  "run evs s = fold step evs s"

text \<open>
  The state in which the background script is loaded: no port, no timer, the store
  \<open>st\<close> that earlier sessions have left (empty after a first install), the active
  tab \<open>tb\<close>.
\<close>

definition init :: "(string \<rightharpoonup> jsval) \<Rightarrow> tab option \<Rightarrow> bg" where
  "init st tb =
     \<lparr>nmhPort = None, updateContextMenuTimeout = None, ports = [], storage = st, timers = [],
      next_timer = 0, now = 0, active_tab = tb, menus = [], fault = NoFault, awaiting = [],
      trace = []\<rparr>"

section \<open>Observations and invariants\<close>

text \<open>The messages posted to the native host, with the port of each, in order.\<close>

definition sent :: "bg \<Rightarrow> (nat \<times> jsval) list" where
  "sent s = concat (map (\<lambda>e. case e of PostMessage p m \<Rightarrow> [(p, m)] | _ \<Rightarrow> []) (trace s))"

text \<open>The handles of the timers that have fired, that is the menu rebuilds that have run.\<close>

definition rebuilds :: "bg \<Rightarrow> nat list" where
  "rebuilds s = concat (map (\<lambda>e. case e of TimerFired h \<Rightarrow> [h] | _ \<Rightarrow> []) (trace s))"

text \<open>The persisted shared record: the keys \<^verbatim>\<open>devices\<close> and \<^verbatim>\<open>connected\<close> of the store.\<close>

definition shared_record :: "bg \<Rightarrow> jsval option \<times> jsval option" where
  "shared_record s = (storage s ''devices'', storage s ''connected'')"

text \<open>The ports that are open: the active channels to the native process.\<close>

definition active_channels :: "bg \<Rightarrow> nat list" where
  "active_channels s = filter (\<lambda>i. port_open (ports s ! i)) [0..<length (ports s)]"

text \<open>
  The channel invariant: a port is open exactly when it is the one \<^verbatim>\<open>nmhPort\<close> holds,
  and every port carries one listener of each kind.
\<close>

definition chan_inv :: "bg \<Rightarrow> bool" where
  "chan_inv s =
     ((\<forall>i < length (ports s).
         (port_open (ports s ! i) \<longleftrightarrow> nmhPort s = Some i) \<and>
         onDisconnect (ports s ! i) = [OnNMHDisconnect] \<and>
         onMessage (ports s ! i) = [HandleNMHMessage]) \<and>
      (\<forall>p. nmhPort s = Some p \<longrightarrow> p < length (ports s)))"

text \<open>The timer invariant: a pending timer is the one \<^verbatim>\<open>updateContextMenuTimeout\<close> holds.\<close>

definition timer_inv :: "bg \<Rightarrow> bool" where
  "timer_inv s =
     (case timers s of
        [] \<Rightarrow> True
      | [(h, due)] \<Rightarrow> updateContextMenuTimeout s = Some h
      | _ \<Rightarrow> False)"

text \<open>The invariant of the ConnectionState record: not connected, no devices.\<close>

definition store_inv :: "(string \<rightharpoonup> jsval) \<Rightarrow> bool" where
  "store_inv st = (st ''connected'' = Some (JBool False) \<longrightarrow> st ''devices'' = Some (JArr []))"

text \<open>
  The events that trigger a refresh of the context menu: a tab is activated, a tab's URL
  changes, a list of devices arrives on an open port.
\<close>

fun is_trigger :: "bg \<Rightarrow> event \<Rightarrow> bool" where
  "is_trigger s (TabActivated t) = True"
| "is_trigger s (TabUpdated tabId url) = (url \<noteq> None \<and> url \<noteq> Some [])"
| "is_trigger s (PortMessage p m) =
     (p < length (ports s) \<and> port_open (ports s ! p) \<and> get_prop m ''type'' = Inr (JStr ''devices''))"
| "is_trigger s ev = False"

text \<open>
  A burst of refresh triggers: the event \<open>ev1\<close>, then each further event after the
  time that has passed since the one before it.
\<close>

definition burst :: "event \<Rightarrow> (nat \<times> event) list \<Rightarrow> event list" where
  "burst ev1 rest = ev1 # concat (map (\<lambda>(g, ev). [Advance g, ev]) rest)"

text \<open>The URL that \<^verbatim>\<open>tabs[0]?.url\<close> reads of the active tab.\<close>

definition active_url :: "bg \<Rightarrow> string option" where
  "active_url s = (case active_tab s of None \<Rightarrow> None | Some t \<Rightarrow> tab_url t)"

section \<open>The handlers, unfolded\<close>

lemmas prim_defs = emit_def storage_local_set_def connectNative_def port_disconnect_def
  addListener_onDisconnect_def addListener_onMessage_def postMessage_def clearTimeout_def
  setTimeout_def contextMenus_removeAll_def tabs_query_def contextMenus_create_def

lemma handleNMHMessage_unfold:
  "handleNMHMessage message s =
     (if \<not> truthy message
      then (None, emit (ConsoleError ''Invalid message received from NMH.'') s)
      else
        (case get_prop message ''type'' of
           Inl e \<Rightarrow> (Some e, s)
         | Inr ty \<Rightarrow>
             (if typeof ty \<noteq> ''string''
              then (None, emit (ConsoleError ''Invalid message received from NMH.'') s)
              else if ty = JStr ''connected'' then
                (case get_prop message ''data'' of
                   Inl e \<Rightarrow> (Some e, s)
                 | Inr d \<Rightarrow>
                     (if d = JBool True
                      then (None, snd (sendMessageToNMH (JObj [(''type'', JStr ''devices'')]) s))
                      else (None, s)))
              else if ty = JStr ''devices'' then
                (case get_prop message ''data'' of
                   Inl e \<Rightarrow> (Some e, s)
                 | Inr d \<Rightarrow>
                     (None,
                      updateContextMenu None
                        (storage_local_set [(''devices'', d), (''connected'', JBool True)] s)))
              else
                (None,
                 emit (ConsoleWarn (''Unknown message type received: '' @
                         (case ty of JStr t \<Rightarrow> t | _ \<Rightarrow> []))) s))))"
proof -
  have str: "typeof ty = ''string'' \<Longrightarrow> to_string ty = (case ty of JStr t \<Rightarrow> t | _ \<Rightarrow> [])" for ty
    by (cases ty) simp_all
  show ?thesis
    by (simp add: handleNMHMessage_def handleNMHMessage_sync_def handleNMHMessage_cont_def
          storage_local_set_awaited_def str split: sum.splits)
qed

lemma onActivated_simps [simp]:
  "snd (onActivated (Inr t) s) = updateContextMenu None (updateIconState (tab_id t) (tab_url t) s)"
  "snd (onActivated (Inl e) s) = s"
  by (simp_all add: onActivated_def)

section \<open>Properties of the URL classification\<close>

lemma startsWith_scheme:
  assumes "CHR '':'' \<notin> set q"
  shows "startsWith u (q @ '':'') \<longleftrightarrow> url_scheme u = Some (q @ '':'')"
proof
  assume "startsWith u (q @ '':'')"
  then have "take (length q + 1) u = q @ '':''" by (simp add: startsWith_def)
  then have "u = (q @ '':'') @ drop (length q + 1) u"
    by (metis append_take_drop_id)
  then obtain r where u: "u = q @ CHR '':'' # r" by simp
  have "takeWhile (\<lambda>c. c \<noteq> CHR '':'') u = q"
    unfolding u using assms by (auto simp: takeWhile_tail)
  moreover have "CHR '':'' \<in> set u" unfolding u by simp
  ultimately show "url_scheme u = Some (q @ '':'')" by (simp add: url_scheme_def)
next
  assume a: "url_scheme u = Some (q @ '':'')"
  then have c: "CHR '':'' \<in> set u" and t: "takeWhile (\<lambda>c. c \<noteq> CHR '':'') u = q"
    by (auto simp: url_scheme_def split: if_splits)
  from c have ne: "dropWhile (\<lambda>c. c \<noteq> CHR '':'') u \<noteq> []"
    by (auto simp: dropWhile_eq_Nil_conv)
  then have "hd (dropWhile (\<lambda>c. c \<noteq> CHR '':'') u) = CHR '':''"
    using hd_dropWhile[of "\<lambda>c. c \<noteq> CHR '':''" u] by simp
  with ne obtain r where d: "dropWhile (\<lambda>c. c \<noteq> CHR '':'') u = CHR '':'' # r"
    by (cases "dropWhile (\<lambda>c. c \<noteq> CHR '':'') u") auto
  have "u = q @ CHR '':'' # r"
    using takeWhile_dropWhile_id[of "\<lambda>c. c \<noteq> CHR '':''" u] t d by simp
  then show "startsWith u (q @ '':'')" by (simp add: startsWith_def)
qed

lemma special_protocol_shape:
  assumes "p \<in> set SPECIAL_PROTOCOLS"
  shows "p = butlast p @ '':'' \<and> CHR '':'' \<notin> set (butlast p)"
  using assms unfolding SPECIAL_PROTOCOLS_def by (elim disjE | simp)+

lemma startsWith_special:
  assumes "p \<in> set SPECIAL_PROTOCOLS"
  shows "startsWith u p \<longleftrightarrow> url_scheme u = Some p"
  using startsWith_scheme[of "butlast p" u] special_protocol_shape[OF assms] by simp

lemma some_special_iff_scheme:
  "list_ex (\<lambda>p. startsWith u p) SPECIAL_PROTOCOLS \<longleftrightarrow> scheme_is_special u"
proof -
  have "list_ex (\<lambda>p. startsWith u p) SPECIAL_PROTOCOLS \<longleftrightarrow>
        (\<exists>p\<in>set SPECIAL_PROTOCOLS. url_scheme u = Some p)"
    by (simp add: list_ex_iff startsWith_special)
  also have "\<dots> \<longleftrightarrow> scheme_is_special u"
    by (cases "url_scheme u") (auto simp: scheme_is_special_def)
  finally show ?thesis .
qed

lemma empty_not_scheme_special: "\<not> scheme_is_special []"
  by (simp add: scheme_is_special_def url_scheme_def)

lemma isSpecialUrl_popup_char:
  "isSpecialUrl url \<longleftrightarrow> (case url of None \<Rightarrow> True | Some u \<Rightarrow> u = [] \<or> scheme_is_special u)"
  by (cases url) (simp_all add: isSpecialUrl_def some_special_iff_scheme)

lemma isSpecialUrl_bg_char:
  "isSpecialUrl_bg url \<longleftrightarrow> (case url of None \<Rightarrow> False | Some u \<Rightarrow> scheme_is_special u)"
proof (cases url)
  case None
  then show ?thesis by (simp add: isSpecialUrl_bg_def list_ex_iff)
next
  case (Some u)
  show ?thesis
  proof (cases "u = []")
    case True
    with Some show ?thesis
      by (simp add: isSpecialUrl_bg_def list_ex_iff empty_not_scheme_special)
  next
    case False
    with Some have "isSpecialUrl_bg url = list_ex (\<lambda>p. startsWith u p) SPECIAL_PROTOCOLS"
      by (simp add: isSpecialUrl_bg_def)
    with Some show ?thesis by (simp add: some_special_iff_scheme)
  qed
qed

lemma callback_menus:
  assumes "fault s = NoFault"
  shows "menus (updateContextMenu_callback s) =
           (if isSpecialUrl_bg (active_url s) then [] else [''openPopup''])"
  using assms
  by (simp add: updateContextMenu_callback_def contextMenus_removeAll_def tabs_query_def
        contextMenus_create_def emit_def active_url_def Let_def split: option.splits)

lemma renderPopupUI_refuses_iff:
  "renderPopupUI (Some t) st = StatusMessage ''Sharing is not available on this page.'' \<longleftrightarrow>
   isSpecialUrl (tab_url t)"
  by (simp add: renderPopupUI_def split: option.splits jsval.splits list.splits)

text \<open>
  The URL classification, at each place that uses it. It is a function of the URL alone.
  The popup's \<^verbatim>\<open>isSpecialUrl\<close> holds of an undefined or empty URL and of a URL whose
  scheme is one of \<^verbatim>\<open>SPECIAL_PROTOCOLS\<close>, and of no other; the popup refuses to share
  exactly on these. The test of the background script holds of a non-empty URL whose scheme
  is one of \<^verbatim>\<open>SPECIAL_PROTOCOLS\<close>, and of no other: on these \<^verbatim>\<open>updateIconState\<close>
  disables the toolbar icon and the menu rebuild creates no entry, on every other URL,
  the undefined and the empty one included, the icon is enabled and the entry created.
\<close>

theorem url_classification:
  "(isSpecialUrl url \<longleftrightarrow> (case url of None \<Rightarrow> True | Some u \<Rightarrow> u = [] \<or> scheme_is_special u)) \<and>
   (isSpecialUrl_bg url \<longleftrightarrow> (case url of None \<Rightarrow> False | Some u \<Rightarrow> u \<noteq> [] \<and> scheme_is_special u)) \<and>
   (renderPopupUI (Some t) st = StatusMessage ''Sharing is not available on this page.'' \<longleftrightarrow>
      (case tab_url t of None \<Rightarrow> True | Some u \<Rightarrow> u = [] \<or> scheme_is_special u)) \<and>
   trace (updateIconState tabId url s) =
     trace s @ [if (case url of None \<Rightarrow> False | Some u \<Rightarrow> u \<noteq> [] \<and> scheme_is_special u)
                then ActionDisable tabId else ActionEnable tabId] \<and>
   (fault s = NoFault \<longrightarrow>
      menus (updateContextMenu_callback s) =
        (if (case active_url s of None \<Rightarrow> False | Some u \<Rightarrow> u \<noteq> [] \<and> scheme_is_special u)
         then [] else [''openPopup'']))"
proof -
  have bg: "isSpecialUrl_bg v \<longleftrightarrow>
            (case v of None \<Rightarrow> False | Some u \<Rightarrow> u \<noteq> [] \<and> scheme_is_special u)" for v
    using empty_not_scheme_special by (auto simp: isSpecialUrl_bg_char split: option.splits)
  have icon: "trace (updateIconState tabId url s) =
        trace s @ [if isSpecialUrl_bg url then ActionDisable tabId else ActionEnable tabId]"
    by (simp add: updateIconState_def emit_def)
  have popup: "renderPopupUI (Some t) st = StatusMessage ''Sharing is not available on this page.'' \<longleftrightarrow>
      (case tab_url t of None \<Rightarrow> True | Some u \<Rightarrow> u = [] \<or> scheme_is_special u)"
    using renderPopupUI_refuses_iff[of t st] isSpecialUrl_popup_char[of "tab_url t"] by simp
  show ?thesis
    using bg[of url] bg[of "active_url s"] icon popup isSpecialUrl_popup_char[of url]
      callback_menus[of s]
    by simp
qed

theorem url_classification_witness:
  "isSpecialUrl (Some ''about:blank'') \<and> \<not> isSpecialUrl_bg (Some ''https://example.com'') \<and>
   renderPopupUI (Some \<lparr>tab_id = 7, tab_url = Some ''about:blank''\<rparr>) Map.empty =
     StatusMessage ''Sharing is not available on this page.'' \<and>
   renderPopupUI (Some \<lparr>tab_id = 7, tab_url = Some ''https://example.com''\<rparr>) Map.empty \<noteq>
     StatusMessage ''Sharing is not available on this page.'' \<and>
   trace (updateIconState 7 (Some ''https://example.com'')
            (init Map.empty (Some \<lparr>tab_id = 7, tab_url = Some ''about:blank''\<rparr>))) =
     [ActionEnable 7] \<and>
   menus (updateContextMenu_callback
            (init Map.empty (Some \<lparr>tab_id = 7, tab_url = Some ''about:blank''\<rparr>))) = []"
  using url_classification[of "Some ''about:blank''" "\<lparr>tab_id = 7, tab_url = Some ''about:blank''\<rparr>"
          Map.empty 7 "init Map.empty (Some \<lparr>tab_id = 7, tab_url = Some ''about:blank''\<rparr>)"]
        url_classification[of "Some ''https://example.com''"
          "\<lparr>tab_id = 7, tab_url = Some ''https://example.com''\<rparr>"
          Map.empty 7 "init Map.empty (Some \<lparr>tab_id = 7, tab_url = Some ''about:blank''\<rparr>)"]
  by (simp add: scheme_is_special_def url_scheme_def SPECIAL_PROTOCOLS_def init_def active_url_def)

text \<open>
  C1 holds of the popup and fails in the background script. For a tab whose URL is
  undefined, and for one whose URL is the empty string, the popup's \<^verbatim>\<open>isSpecialUrl\<close>
  answers special (\<^verbatim>\<open>if (!url) return true\<close>) and the popup refuses to share, as the
  claim says. The test of the background script,
  \<^verbatim>\<open>SPECIAL_PROTOCOLS.some((p) => url && url.startsWith(p))\<close>, answers not special on the
  same URLs: \<^verbatim>\<open>updateIconState\<close> enables the toolbar icon and the menu rebuild creates
  the menu entry.
\<close>

theorem undefined_url_not_special_in_background:
  "isSpecialUrl None \<and> isSpecialUrl (Some []) \<and>
   renderPopupUI (Some \<lparr>tab_id = 7, tab_url = None\<rparr>) (map_of []) =
     StatusMessage ''Sharing is not available on this page.'' \<and>
   \<not> isSpecialUrl_bg None \<and> \<not> isSpecialUrl_bg (Some []) \<and>
   trace (updateIconState 7 None (init (map_of []) None)) = [ActionEnable 7] \<and>
   trace (updateIconState 7 (Some []) (init (map_of []) None)) = [ActionEnable 7] \<and>
   menus (updateContextMenu_callback (init (map_of []) (Some \<lparr>tab_id = 7, tab_url = None\<rparr>))) =
     [''openPopup'']"
  by (simp add: isSpecialUrl_def isSpecialUrl_bg_def SPECIAL_PROTOCOLS_def updateIconState_def
        emit_def init_def renderPopupUI_def updateContextMenu_callback_def
        contextMenus_removeAll_def tabs_query_def contextMenus_create_def)

section \<open>What each function leaves unchanged\<close>

lemma updateIconState_emit:
  "updateIconState tabId url s = emit (if isSpecialUrl_bg url then ActionDisable tabId else ActionEnable tabId) s"
  by (simp add: updateIconState_def)

lemma updateContextMenu_eq:
  "updateContextMenu delay s =
     s\<lparr>updateContextMenuTimeout := Some (next_timer s),
       timers := filter (\<lambda>(i, due). Some i \<noteq> updateContextMenuTimeout s) (timers s) @
                 [(next_timer s, now s + (case delay of None \<Rightarrow> 250 | Some d \<Rightarrow> d))],
       next_timer := Suc (next_timer s),
       trace := trace s @ [ClearTimeout (updateContextMenuTimeout s),
                           SetTimeout (next_timer s) (case delay of None \<Rightarrow> 250 | Some d \<Rightarrow> d)]\<rparr>"
  by (simp add: updateContextMenu_def clearTimeout_def setTimeout_def emit_def Let_def)

lemma callback_frame:
  "nmhPort (updateContextMenu_callback s) = nmhPort s"
  "ports (updateContextMenu_callback s) = ports s"
  "storage (updateContextMenu_callback s) = storage s"
  "timers (updateContextMenu_callback s) = timers s"
  "updateContextMenuTimeout (updateContextMenu_callback s) = updateContextMenuTimeout s"
  "now (updateContextMenu_callback s) = now s"
  "next_timer (updateContextMenu_callback s) = next_timer s"
  "active_tab (updateContextMenu_callback s) = active_tab s"
  "fault (updateContextMenu_callback s) = fault s"
  by (simp_all add: updateContextMenu_callback_def contextMenus_removeAll_def tabs_query_def
        contextMenus_create_def emit_def Let_def split: option.splits list.splits)

lemma sendMessageToNMH_frame:
  "nmhPort (snd (sendMessageToNMH m s)) = nmhPort s"
  "ports (snd (sendMessageToNMH m s)) = ports s"
  "storage (snd (sendMessageToNMH m s)) = storage s"
  "timers (snd (sendMessageToNMH m s)) = timers s"
  "updateContextMenuTimeout (snd (sendMessageToNMH m s)) = updateContextMenuTimeout s"
  "now (snd (sendMessageToNMH m s)) = now s"
  "next_timer (snd (sendMessageToNMH m s)) = next_timer s"
  "active_tab (snd (sendMessageToNMH m s)) = active_tab s"
  "menus (snd (sendMessageToNMH m s)) = menus s"
  "fault (snd (sendMessageToNMH m s)) = fault s"
  by (simp_all add: sendMessageToNMH_def postMessage_def emit_def split: option.splits)

lemma handleNMHMessage_frame:
  "nmhPort (snd (handleNMHMessage m s)) = nmhPort s"
  "ports (snd (handleNMHMessage m s)) = ports s"
  "now (snd (handleNMHMessage m s)) = now s"
  "active_tab (snd (handleNMHMessage m s)) = active_tab s"
  "menus (snd (handleNMHMessage m s)) = menus s"
  "fault (snd (handleNMHMessage m s)) = fault s"
  by (simp_all add: handleNMHMessage_unfold sendMessageToNMH_frame updateContextMenu_eq
        storage_local_set_def emit_def split: sum.splits)

lemma handleNMHMessage_sync_frame:
  "nmhPort (snd (handleNMHMessage_sync ack m s)) = nmhPort s"
  "ports (snd (handleNMHMessage_sync ack m s)) = ports s"
  "timers (snd (handleNMHMessage_sync ack m s)) = timers s"
  "updateContextMenuTimeout (snd (handleNMHMessage_sync ack m s)) = updateContextMenuTimeout s"
  "next_timer (snd (handleNMHMessage_sync ack m s)) = next_timer s"
  "now (snd (handleNMHMessage_sync ack m s)) = now s"
  "awaiting (snd (handleNMHMessage_sync ack m s)) = awaiting s"
  by (simp_all add: handleNMHMessage_sync_def sendMessageToNMH_frame storage_local_set_awaited_def
        storage_local_set_def emit_def sendMessageToNMH_def postMessage_def
        split: sum.splits option.splits)

lemma handleNMHMessage_sync_storage:
  "storage (snd (handleNMHMessage_sync ack m s)) = storage s \<or>
   (\<exists>d. storage (snd (handleNMHMessage_sync ack m s)) =
          (storage s)(''devices'' \<mapsto> d, ''connected'' \<mapsto> JBool True))"
  by (auto simp: handleNMHMessage_sync_def sendMessageToNMH_frame storage_local_set_awaited_def
        storage_local_set_def emit_def split: sum.splits)

lemma handleNMHMessage_cont_frame:
  "nmhPort (snd (handleNMHMessage_cont ack s)) = nmhPort s"
  "ports (snd (handleNMHMessage_cont ack s)) = ports s"
  "storage (snd (handleNMHMessage_cont ack s)) = storage s"
  by (simp_all add: handleNMHMessage_cont_def updateContextMenu_eq)

lemma write_settles_frame:
  "nmhPort (write_settles s) = nmhPort s"
  "ports (write_settles s) = ports s"
  "storage (write_settles s) = storage s"
  by (simp_all add: write_settles_def handleNMHMessage_cont_frame split: list.splits)

lemma deliver_message_begin_frame:
  "nmhPort (deliver_message_begin ack p m s) = nmhPort s \<and>
   ports (deliver_message_begin ack p m s) = ports s \<and>
   timers (deliver_message_begin ack p m s) = timers s \<and>
   updateContextMenuTimeout (deliver_message_begin ack p m s) = updateContextMenuTimeout s"
proof -
  have "nmhPort (fold (\<lambda>l s'. case l of HandleNMHMessage \<Rightarrow>
                   (case handleNMHMessage_sync ack m s' of
                      (Finished r, s1) \<Rightarrow> s1
                    | (AwaitingWrite, s1) \<Rightarrow> s1\<lparr>awaiting := awaiting s1 @ [ack]\<rparr>)) ls s') = nmhPort s' \<and>
        ports (fold (\<lambda>l s'. case l of HandleNMHMessage \<Rightarrow>
                   (case handleNMHMessage_sync ack m s' of
                      (Finished r, s1) \<Rightarrow> s1
                    | (AwaitingWrite, s1) \<Rightarrow> s1\<lparr>awaiting := awaiting s1 @ [ack]\<rparr>)) ls s') = ports s' \<and>
        timers (fold (\<lambda>l s'. case l of HandleNMHMessage \<Rightarrow>
                   (case handleNMHMessage_sync ack m s' of
                      (Finished r, s1) \<Rightarrow> s1
                    | (AwaitingWrite, s1) \<Rightarrow> s1\<lparr>awaiting := awaiting s1 @ [ack]\<rparr>)) ls s') = timers s' \<and>
        updateContextMenuTimeout (fold (\<lambda>l s'. case l of HandleNMHMessage \<Rightarrow>
                   (case handleNMHMessage_sync ack m s' of
                      (Finished r, s1) \<Rightarrow> s1
                    | (AwaitingWrite, s1) \<Rightarrow> s1\<lparr>awaiting := awaiting s1 @ [ack]\<rparr>)) ls s') =
          updateContextMenuTimeout s'" for ls s'
  proof (induction ls arbitrary: s')
    case Nil
    show ?case by simp
  next
    case (Cons l ls)
    obtain r s1 where h: "handleNMHMessage_sync ack m s' = (r, s1)"
      by (cases "handleNMHMessage_sync ack m s'")
    have f: "nmhPort s1 = nmhPort s'" "ports s1 = ports s'" "timers s1 = timers s'"
      "updateContextMenuTimeout s1 = updateContextMenuTimeout s'"
      using handleNMHMessage_sync_frame[of ack m s'] h by simp_all
    show ?case
      by (cases l; cases r) (simp_all add: h Cons.IH f)
  qed
  then show ?thesis by (simp add: deliver_message_begin_def)
qed

lemma handleRuntimeMessage_frame:
  "nmhPort (snd (handleRuntimeMessage m sd s)) = nmhPort s"
  "ports (snd (handleRuntimeMessage m sd s)) = ports s"
  "storage (snd (handleRuntimeMessage m sd s)) = storage s"
  "timers (snd (handleRuntimeMessage m sd s)) = timers s"
  "updateContextMenuTimeout (snd (handleRuntimeMessage m sd s)) = updateContextMenuTimeout s"
  "now (snd (handleRuntimeMessage m sd s)) = now s"
  "next_timer (snd (handleRuntimeMessage m sd s)) = next_timer s"
  "active_tab (snd (handleRuntimeMessage m sd s)) = active_tab s"
  "menus (snd (handleRuntimeMessage m sd s)) = menus s"
  "fault (snd (handleRuntimeMessage m sd s)) = fault s"
  by (simp_all add: handleRuntimeMessage_def sendMessageToNMH_def postMessage_def emit_def Let_def
        split: sum.splits option.splits bool.splits prod.splits)


lemma fold_run_timer_frame:
  "nmhPort (fold run_timer tms s) = nmhPort s \<and> ports (fold run_timer tms s) = ports s \<and>
   storage (fold run_timer tms s) = storage s \<and>
   updateContextMenuTimeout (fold run_timer tms s) = updateContextMenuTimeout s \<and>
   now (fold run_timer tms s) = now s \<and> next_timer (fold run_timer tms s) = next_timer s \<and>
   active_tab (fold run_timer tms s) = active_tab s \<and> fault (fold run_timer tms s) = fault s"
  by (induction tms arbitrary: s) (simp_all add: run_timer_def callback_frame emit_def)

lemma advance_frame:
  "nmhPort (advance d s) = nmhPort s"
  "ports (advance d s) = ports s"
  "storage (advance d s) = storage s"
  "updateContextMenuTimeout (advance d s) = updateContextMenuTimeout s"
  "next_timer (advance d s) = next_timer s"
  "active_tab (advance d s) = active_tab s"
  "fault (advance d s) = fault s"
  "now (advance d s) = now s + d"
  by (simp_all add: advance_def fold_run_timer_frame)

section \<open>The channel invariant\<close>

lemma chan_inv_cong:
  "ports s' = ports s \<Longrightarrow> nmhPort s' = nmhPort s \<Longrightarrow> chan_inv s' = chan_inv s"
  by (simp add: chan_inv_def)

lemma chan_inv_init: "chan_inv (init st tb)"
  by (simp add: chan_inv_def init_def)

lemma chan_inv_connectToNMH: "chan_inv s \<Longrightarrow> chan_inv (connectToNMH ok s)"
  unfolding chan_inv_def connectToNMH_def onNMHDisconnect_def prim_defs
  by (auto simp: nth_append nth_list_update Let_def split: option.splits)

lemma initializeState_chan:
  "ports (snd (initializeState ok s)) = ports (connectToNMH ok s)"
  "nmhPort (snd (initializeState ok s)) = nmhPort (connectToNMH ok s)"
  "storage (snd (initializeState ok s)) = storage (connectToNMH ok s)"
  "timers (snd (initializeState ok s)) = timers (connectToNMH ok s)"
  "updateContextMenuTimeout (snd (initializeState ok s)) = updateContextMenuTimeout (connectToNMH ok s)"
  by (simp_all add: initializeState_def tabs_query_def updateIconState_emit emit_def
        split: list.splits option.splits)

lemma deliver_message_inv:
  "chan_inv s \<Longrightarrow> deliver_message p m s =
     (if p < length (ports s) \<and> port_open (ports s ! p) then snd (handleNMHMessage m s) else s)"
  by (auto simp: deliver_message_def chan_inv_def)

lemma deliver_disconnect_inv:
  "chan_inv s \<Longrightarrow> deliver_disconnect p s =
     (if p < length (ports s) \<and> port_open (ports s ! p)
      then onNMHDisconnect (s\<lparr>ports := (ports s)[p := (ports s ! p)\<lparr>port_open := False\<rparr>]\<rparr>)
      else s)"
  by (auto simp: deliver_disconnect_def chan_inv_def)

lemma chan_inv_deliver_disconnect: "chan_inv s \<Longrightarrow> chan_inv (deliver_disconnect p s)"
  by (simp add: deliver_disconnect_inv)
     (auto simp: chan_inv_def onNMHDisconnect_def prim_defs nth_list_update)

lemma chan_inv_step: "chan_inv s \<Longrightarrow> chan_inv (step ev s)"
proof (cases ev)
  case (OnInstalled ok)
  assume "chan_inv s"
  then have "chan_inv (connectToNMH ok s)" by (rule chan_inv_connectToNMH)
  with OnInstalled show ?thesis by (simp add: chan_inv_cong[OF initializeState_chan(1,2)])
next
  case (OnStartup ok)
  assume "chan_inv s"
  then have "chan_inv (connectToNMH ok s)" by (rule chan_inv_connectToNMH)
  with OnStartup show ?thesis by (simp add: chan_inv_cong[OF initializeState_chan(1,2)])
next
  case (PortMessage p m)
  assume "chan_inv s"
  with PortMessage show ?thesis
    by (simp add: deliver_message_inv chan_inv_cong[OF handleNMHMessage_frame(2,1)])
next
  case (PortDisconnected p)
  assume "chan_inv s"
  with PortDisconnected show ?thesis by (simp add: chan_inv_deliver_disconnect)
next
  case (RuntimeMessage m sd)
  assume "chan_inv s"
  with RuntimeMessage show ?thesis
    by (simp add: chan_inv_cong[OF handleRuntimeMessage_frame(2,1)])
next
  case (MenuClicked i)
  assume "chan_inv s"
  with MenuClicked show ?thesis
    by (simp add: handleContextMenuClick_def emit_def chan_inv_def)
next
  case (TabActivated t)
  assume "chan_inv s"
  with TabActivated show ?thesis
    by (simp add: updateContextMenu_eq updateIconState_emit emit_def chan_inv_def)
next
  case (TabUpdated i url)
  assume "chan_inv s"
  with TabUpdated show ?thesis
    by (auto simp: updateContextMenu_eq updateIconState_emit emit_def chan_inv_def
          tab_navigated_def Let_def split: option.splits)
next
  case (Advance d)
  assume "chan_inv s"
  with Advance show ?thesis by (simp add: chan_inv_cong[OF advance_frame(2,1)])
next
  case (SetFault f)
  assume "chan_inv s"
  with SetFault show ?thesis by (simp add: chan_inv_def)
next
  case (PortMessageBegins p m ack)
  assume "chan_inv s"
  moreover have "chan_inv (deliver_message_begin ack p m s) = chan_inv s"
    by (rule chan_inv_cong) (simp_all add: deliver_message_begin_frame)
  ultimately show ?thesis using PortMessageBegins by simp
next
  case WriteSettles
  assume "chan_inv s"
  with WriteSettles show ?thesis by (simp add: chan_inv_cong[OF write_settles_frame(2,1)])
next
  case (TabActivatedGetFails i)
  assume "chan_inv s"
  with TabActivatedGetFails show ?thesis by simp
qed

lemma chan_inv_run: "chan_inv s \<Longrightarrow> chan_inv (run evs s)"
  unfolding run_def by (induction evs arbitrary: s) (simp_all add: chan_inv_step)

lemma chan_inv_reachable: "chan_inv (run evs (init st tb))"
  by (rule chan_inv_run[OF chan_inv_init])


lemma filter_eq_upt: "p < n \<Longrightarrow> filter (\<lambda>i. p = i) [0..<n] = [p]"
proof (induction n)
  case 0
  then show ?case by simp
next
  case (Suc n)
  show ?case
  proof (cases "p = n")
    case True
    have "filter (\<lambda>i. p = i) [0..<n] = []" using True by (auto simp: filter_empty_conv)
    with True show ?thesis by simp
  next
    case False
    with Suc show ?thesis by simp
  qed
qed

lemma active_channels_inv:
  assumes "chan_inv s"
  shows "active_channels s = (case nmhPort s of None \<Rightarrow> [] | Some p \<Rightarrow> [p])"
proof -
  have "active_channels s = filter (\<lambda>i. nmhPort s = Some i) [0..<length (ports s)]"
    unfolding active_channels_def using assms by (intro filter_cong) (auto simp: chan_inv_def)
  also have "\<dots> = (case nmhPort s of None \<Rightarrow> [] | Some p \<Rightarrow> [p])"
  proof (cases "nmhPort s")
    case None
    then show ?thesis by simp
  next
    case (Some p)
    with assms have "p < length (ports s)" by (simp add: chan_inv_def)
    with Some show ?thesis by (simp add: filter_eq_upt)
  qed
  finally show ?thesis .
qed

lemma connectToNMH_nmhPort:
  "nmhPort (connectToNMH ok s) = (if ok then Some (length (ports s)) else None)"
  by (simp add: connectToNMH_def onNMHDisconnect_def prim_defs Let_def split: option.splits)

lemma connectToNMH_length:
  "length (ports (connectToNMH ok s)) = (if ok then Suc (length (ports s)) else length (ports s))"
  by (simp add: connectToNMH_def onNMHDisconnect_def prim_defs Let_def split: option.splits)

lemma chan_inv_fold_connect: "chan_inv s \<Longrightarrow> chan_inv (fold connectToNMH oks s)"
  by (induction oks arbitrary: s) (simp_all add: chan_inv_connectToNMH)

lemma chan_inv_listeners:
  "chan_inv s \<Longrightarrow>
   list_all (\<lambda>pt. onDisconnect pt = [OnNMHDisconnect] \<and> onMessage pt = [HandleNMHMessage]) (ports s)"
  by (simp add: chan_inv_def list_all_length)

text \<open>
  C2, as the code has it. Take any state the script can reach and any sequence of calls of
  \<^verbatim>\<open>connectToNMH\<close>, each with its outcome of \<^verbatim>\<open>connectNative\<close>. Afterwards at most one
  channel is active and every port carries exactly one disconnect listener and one message
  listener. When the last call opened its channel, exactly one channel is active, the one
  \<^verbatim>\<open>nmhPort\<close> holds; when the last call failed to open, the handle is cleared and no
  channel is active.
\<close>

theorem connect_sequence_one_channel:
  assumes "oks \<noteq> []"
  shows "(let s' = fold connectToNMH oks (run evs (init st tb)); p = length (ports s') - 1 in
          length (active_channels s') \<le> 1 \<and>
          list_all (\<lambda>pt. onDisconnect pt = [OnNMHDisconnect] \<and> onMessage pt = [HandleNMHMessage])
            (ports s') \<and>
          (if last oks
           then nmhPort s' = Some p \<and> active_channels s' = [p] \<and>
                onDisconnect (ports s' ! p) = [OnNMHDisconnect] \<and>
                onMessage (ports s' ! p) = [HandleNMHMessage]
           else nmhPort s' = None \<and> active_channels s' = []))"
proof -
  define s0 where "s0 = fold connectToNMH (butlast oks) (run evs (init st tb))"
  define s' where "s' = fold connectToNMH oks (run evs (init st tb))"
  have inv0: "chan_inv s0"
    unfolding s0_def by (rule chan_inv_fold_connect[OF chan_inv_reachable])
  have "oks = butlast oks @ [last oks]" using assms by simp
  then have "s' = fold connectToNMH (butlast oks @ [last oks]) (run evs (init st tb))"
    unfolding s'_def by simp
  then have s': "s' = connectToNMH (last oks) s0" by (simp add: s0_def)
  have inv: "chan_inv s'" unfolding s' by (rule chan_inv_connectToNMH[OF inv0])
  have act: "active_channels s' = (case nmhPort s' of None \<Rightarrow> [] | Some p \<Rightarrow> [p])"
    by (rule active_channels_inv[OF inv])
  have port: "nmhPort s' = (if last oks then Some (length (ports s') - 1) else None)"
    unfolding s' by (simp add: connectToNMH_nmhPort connectToNMH_length)
  have lst: "list_all (\<lambda>pt. onDisconnect pt = [OnNMHDisconnect] \<and> onMessage pt = [HandleNMHMessage]) (ports s')"
    by (rule chan_inv_listeners[OF inv])
  have one: "last oks \<Longrightarrow> onDisconnect (ports s' ! (length (ports s') - 1)) = [OnNMHDisconnect] \<and>
             onMessage (ports s' ! (length (ports s') - 1)) = [HandleNMHMessage]"
    using inv port by (auto simp: chan_inv_def)
  show ?thesis
    unfolding Let_def s'_def[symmetric] using act port lst one by (auto split: option.splits)
qed


theorem connect_sequence_one_channel_witness:
  "nmhPort (fold connectToNMH [True, True] (run [] (init Map.empty None))) = Some 1 \<and>
   active_channels (fold connectToNMH [True, True] (run [] (init Map.empty None))) = [1] \<and>
   nmhPort (fold connectToNMH [True, False] (run [] (init Map.empty None))) = None"
  using connect_sequence_one_channel[of "[True, True]" "[]" Map.empty None]
        connect_sequence_one_channel[of "[True, False]" "[]" Map.empty None]
  by (simp add: Let_def run_def init_def connectToNMH_def onNMHDisconnect_def prim_defs)

text \<open>
  The claim C2 as stated fails when the open fails: after a successful call and a failed
  one, no channel is active.
\<close>

theorem failed_open_leaves_no_channel:
  "active_channels (fold connectToNMH [True, False] (init (map_of []) None)) = [] \<and>
   nmhPort (fold connectToNMH [True, False] (init (map_of []) None)) = None"
  by (simp add: active_channels_def init_def connectToNMH_def onNMHDisconnect_def prim_defs Let_def)

section \<open>The handlers of messages: properties\<close>

lemma sent_emit:
  "sent (emit e s) = sent s @ (case e of PostMessage p m \<Rightarrow> [(p, m)] | _ \<Rightarrow> [])"
  by (simp add: sent_def emit_def)

lemma get_prop_obj:
  "get_prop m k = Inr (JStr t) \<Longrightarrow> typeof m = ''object'' \<and> m \<noteq> JNull \<and> truthy m"
  by (cases m) simp_all

lemma get_prop_other:
  "get_prop m k = Inr v \<Longrightarrow> \<exists>w. get_prop m k' = Inr w"
  by (cases m) simp_all

lemma sendMessageToNMH_open:
  "nmhPort s = Some p \<Longrightarrow> p < length (ports s) \<Longrightarrow> port_open (ports s ! p) \<Longrightarrow>
   sendMessageToNMH m s = (True, emit (PostMessage p m) s)"
  by (simp add: sendMessageToNMH_def postMessage_def)

text \<open>
  C3. An internal message of type \<^verbatim>\<open>share\<close> whose sender has a tab is answered by a
  warning only: nothing is posted to the native channel. The same message from a sender
  with no tab, when the channel is open, is posted as it was received, on the port that
  \<^verbatim>\<open>nmhPort\<close> holds, and nothing else is posted.
\<close>

theorem share_forwarding:
  assumes "get_prop message ''type'' = Inr (JStr ''share'')"
  shows "handleRuntimeMessage message (Some t) s =
           (None, emit (ConsoleWarn ''Received a 'share' message from a tab. Ignoring.'')
                    (emit (ConsoleLog ''Received message:'') s)) \<and>
         sent (step (RuntimeMessage message (Some t)) s) = sent s \<and>
         (nmhPort s = Some p \<and> p < length (ports s) \<and> port_open (ports s ! p) \<longrightarrow>
            handleRuntimeMessage message None s =
              (None, emit (PostMessage p message) (emit (ConsoleLog ''Received message:'') s)) \<and>
            sent (step (RuntimeMessage message None) s) = sent s @ [(p, message)])"
proof -
  note obj = get_prop_obj[OF assms]
  have tab: "handleRuntimeMessage message (Some t) s =
           (None, emit (ConsoleWarn ''Received a 'share' message from a tab. Ignoring.'')
                    (emit (ConsoleLog ''Received message:'') s))"
    using assms obj by (simp add: handleRuntimeMessage_def Let_def)
  have priv: "handleRuntimeMessage message None s =
              (None, emit (PostMessage p message) (emit (ConsoleLog ''Received message:'') s))"
    if "nmhPort s = Some p" "p < length (ports s)" "port_open (ports s ! p)"
  proof -
    have "sendMessageToNMH message (emit (ConsoleLog ''Received message:'') s) =
          (True, emit (PostMessage p message) (emit (ConsoleLog ''Received message:'') s))"
      using that by (intro sendMessageToNMH_open) (simp_all add: emit_def)
    then show ?thesis using assms obj by (simp add: handleRuntimeMessage_def Let_def)
  qed
  show ?thesis using tab priv by (simp add: sent_emit handleRuntimeMessage_frame)
qed

theorem share_forwarding_witness:
  "sent (step (RuntimeMessage (JObj [(''type'', JStr ''share''), (''data'', JStr ''x'')])
                 (Some \<lparr>tab_id = 3, tab_url = Some ''https://example.com''\<rparr>))
           (connectToNMH True (init Map.empty None))) = [] \<and>
   sent (step (RuntimeMessage (JObj [(''type'', JStr ''share''), (''data'', JStr ''x'')]) None)
           (connectToNMH True (init Map.empty None))) =
     [(0, JObj [(''type'', JStr ''share''), (''data'', JStr ''x'')])]"
  using share_forwarding[of "JObj [(''type'', JStr ''share''), (''data'', JStr ''x'')]"
          "\<lparr>tab_id = 3, tab_url = Some ''https://example.com''\<rparr>"
          "connectToNMH True (init Map.empty None)" 0]
  by (simp add: sent_def init_def connectToNMH_def prim_defs Let_def)

text \<open>
  C10. A message of type \<^verbatim>\<open>connected\<close> whose data is not the boolean \<^verbatim>\<open>true\<close> leaves
  the whole state as it was: nothing is posted, the store is not written, nothing is
  logged, and no exception escapes.
\<close>

theorem connected_not_true_is_ignored:
  assumes "get_prop m ''type'' = Inr (JStr ''connected'')"
      and "get_prop m ''data'' \<noteq> Inr (JBool True)"
  shows "handleNMHMessage m s = (None, s)"
  using assms get_prop_obj[OF assms(1)] get_prop_other[OF assms(1), of "''data''"]
  by (auto simp: handleNMHMessage_unfold split: sum.splits)

theorem connected_not_true_is_ignored_witness:
  "handleNMHMessage (JObj [(''type'', JStr ''connected''), (''data'', JBool False)])
     (connectToNMH True (init Map.empty None)) = (None, connectToNMH True (init Map.empty None))"
  using connected_not_true_is_ignored[of "JObj [(''type'', JStr ''connected''), (''data'', JBool False)]"
          "connectToNMH True (init Map.empty None)"]
  by simp

lemma onNMHDisconnect_eq:
  "onNMHDisconnect s =
     s\<lparr>nmhPort := None,
       storage := (storage s)(''devices'' \<mapsto> JArr [], ''connected'' \<mapsto> JBool False),
       trace := trace s @ [StorageSet [(''devices'', JArr []), (''connected'', JBool False)]]\<rparr>"
  by (simp add: onNMHDisconnect_def storage_local_set_def emit_def)

lemma connectToNMH_fail_storage:
  "storage (connectToNMH False s) =
     (storage s)(''devices'' \<mapsto> JArr [], ''connected'' \<mapsto> JBool False)"
  by (simp add: connectToNMH_def onNMHDisconnect_eq prim_defs Let_def split: option.splits)

text \<open>
  C4. In every state the script can reach, when the native host's end closes the open
  port, the handle \<^verbatim>\<open>nmhPort\<close> is cleared, no channel is active, and the store has
  \<^verbatim>\<open>devices = []\<close> and \<^verbatim>\<open>connected = false\<close>, whatever it held. The same holds, in any
  state, after a call of \<^verbatim>\<open>connectToNMH\<close> whose \<^verbatim>\<open>connectNative\<close> throws.
\<close>

theorem disconnect_resets_record:
  "(let s0 = run evs (init st tb); s1 = step (PortDisconnected p) s0 in
      p < length (ports s0) \<and> port_open (ports s0 ! p) \<longrightarrow>
        nmhPort s1 = None \<and> active_channels s1 = [] \<and>
        storage s1 = (storage s0)(''devices'' \<mapsto> JArr [], ''connected'' \<mapsto> JBool False) \<and>
        shared_record s1 = (Some (JArr []), Some (JBool False))) \<and>
   (let s2 = connectToNMH False s in
      nmhPort s2 = None \<and>
      storage s2 = (storage s)(''devices'' \<mapsto> JArr [], ''connected'' \<mapsto> JBool False) \<and>
      shared_record s2 = (Some (JArr []), Some (JBool False)))"
proof -
  define s0 where "s0 = run evs (init st tb)"
  have inv: "chan_inv s0" unfolding s0_def by (rule chan_inv_reachable)
  have a: "nmhPort (step (PortDisconnected p) s0) = None \<and>
        active_channels (step (PortDisconnected p) s0) = [] \<and>
        storage (step (PortDisconnected p) s0) =
          (storage s0)(''devices'' \<mapsto> JArr [], ''connected'' \<mapsto> JBool False) \<and>
        shared_record (step (PortDisconnected p) s0) = (Some (JArr []), Some (JBool False))"
    if op: "p < length (ports s0)" "port_open (ports s0 ! p)"
  proof -
    have eq: "step (PortDisconnected p) s0 =
          onNMHDisconnect (s0\<lparr>ports := (ports s0)[p := (ports s0 ! p)\<lparr>port_open := False\<rparr>]\<rparr>)"
      using op by (simp add: deliver_disconnect_inv[OF inv])
    have inv1: "chan_inv (step (PortDisconnected p) s0)" by (rule chan_inv_step[OF inv])
    have n: "nmhPort (step (PortDisconnected p) s0) = None"
      unfolding eq by (simp add: onNMHDisconnect_eq)
    have "active_channels (step (PortDisconnected p) s0) = []"
      using active_channels_inv[OF inv1] n by simp
    with n show ?thesis unfolding eq by (simp add: onNMHDisconnect_eq shared_record_def)
  qed
  have b: "nmhPort (connectToNMH False s) = None \<and>
      storage (connectToNMH False s) =
        (storage s)(''devices'' \<mapsto> JArr [], ''connected'' \<mapsto> JBool False) \<and>
      shared_record (connectToNMH False s) = (Some (JArr []), Some (JBool False))"
    by (simp add: connectToNMH_nmhPort connectToNMH_fail_storage shared_record_def)
  show ?thesis unfolding Let_def s0_def[symmetric] using a b by blast
qed

theorem disconnect_resets_record_witness:
  "shared_record
     (step (PortDisconnected 0)
        (run [OnInstalled True,
              PortMessage 0 (JObj [(''type'', JStr ''devices''), (''data'', JArr [JStr ''a''])])]
           (init Map.empty None))) = (Some (JArr []), Some (JBool False)) \<and>
   nmhPort
     (step (PortDisconnected 0)
        (run [OnInstalled True,
              PortMessage 0 (JObj [(''type'', JStr ''devices''), (''data'', JArr [JStr ''a''])])]
           (init Map.empty None))) = None"
  using disconnect_resets_record[where p = 0 and evs = "[OnInstalled True,
              PortMessage 0 (JObj [(''type'', JStr ''devices''), (''data'', JArr [JStr ''a''])])]"
          and st = Map.empty and tb = None and s = "init Map.empty None"]
  by (simp add: Let_def run_def init_def initializeState_def connectToNMH_def prim_defs
        deliver_message_def handleNMHMessage_frame)

text \<open>
  C8. In every state the script can reach, a message \<^verbatim>\<open>{type: 'connected', data: true}\<close>
  arriving on an open port makes the script post exactly one message, \<^verbatim>\<open>{type: 'devices'}\<close>,
  on that port; it does nothing else.
\<close>

theorem connected_requests_devices:
  assumes "s = run evs (init st tb)"
      and "p < length (ports s)" and "port_open (ports s ! p)"
      and "get_prop m ''type'' = Inr (JStr ''connected'')"
      and "get_prop m ''data'' = Inr (JBool True)"
  shows "trace (step (PortMessage p m) s) =
           trace s @ [PostMessage p (JObj [(''type'', JStr ''devices'')])] \<and>
         sent (step (PortMessage p m) s) = sent s @ [(p, JObj [(''type'', JStr ''devices'')])] \<and>
         storage (step (PortMessage p m) s) = storage s"
proof -
  have inv: "chan_inv s" unfolding assms(1) by (rule chan_inv_reachable)
  then have port: "nmhPort s = Some p" using assms(2,3) by (simp add: chan_inv_def)
  have "handleNMHMessage m s =
        (None, snd (sendMessageToNMH (JObj [(''type'', JStr ''devices'')]) s))"
    using assms(4,5) get_prop_obj[OF assms(4)] by (simp add: handleNMHMessage_unfold)
  then have "step (PortMessage p m) s = emit (PostMessage p (JObj [(''type'', JStr ''devices'')])) s"
    using assms(2,3) by (simp add: deliver_message_inv[OF inv] sendMessageToNMH_open[OF port])
  then show ?thesis by (simp add: sent_emit) (simp add: emit_def)
qed

theorem connected_requests_devices_witness:
  "sent (step (PortMessage 0 (JObj [(''type'', JStr ''connected''), (''data'', JBool True)]))
           (run [OnInstalled True] (init Map.empty None))) =
     [(0, JObj [(''type'', JStr ''devices'')])]"
  using connected_requests_devices[where s = "run [OnInstalled True] (init Map.empty None)"
          and evs = "[OnInstalled True]" and st = Map.empty and tb = None and p = 0
          and m = "JObj [(''type'', JStr ''connected''), (''data'', JBool True)]"]
  by (simp add: sent_def run_def init_def initializeState_def connectToNMH_def prim_defs)


lemma handleNMHMessage_sync_finished:
  assumes "get_prop m ''type'' \<noteq> Inr (JStr ''devices'')"
  shows "handleNMHMessage_sync ack m s = (Finished (fst (handleNMHMessage m s)), snd (handleNMHMessage m s))"
proof -
  have "\<not> (truthy m \<and> get_prop m ''type'' = Inr (JStr ''devices''))" using assms by simp
  then have "\<exists>r s1. handleNMHMessage_sync True m s = (Finished r, s1) \<and>
                    handleNMHMessage_sync ack m s = (Finished r, s1)"
    by (auto simp: handleNMHMessage_sync_def split: sum.splits)
  then show ?thesis by (auto simp: handleNMHMessage_def)
qed

text \<open>
  C7, as the code has it. A message that is falsy, whose type is not a string, or whose
  type is a string other than \<^verbatim>\<open>connected\<close> and \<^verbatim>\<open>devices\<close>, is logged (an error for the
  first two, a warning naming the type for the last) and dropped: the handler finishes
  without reaching its \<^verbatim>\<open>await\<close>, no exception escapes it, and the store, the messages
  sent and the timers are as before. A message of type \<^verbatim>\<open>connected\<close> whose data is not
  \<^verbatim>\<open>true\<close> is dropped in the same way, but without a log: the state is as before.
\<close>

theorem unknown_message_dropped:
  "(get_prop m ''type'' \<noteq> Inr (JStr ''connected'') \<and> get_prop m ''type'' \<noteq> Inr (JStr ''devices'') \<longrightarrow>
      handleNMHMessage m s =
        (None,
         emit (case get_prop m ''type'' of
                 Inr (JStr t) \<Rightarrow> ConsoleWarn (''Unknown message type received: '' @ t)
               | _ \<Rightarrow> ConsoleError ''Invalid message received from NMH.'') s) \<and>
      handleNMHMessage_sync ack m s =
        (Finished None,
         emit (case get_prop m ''type'' of
                 Inr (JStr t) \<Rightarrow> ConsoleWarn (''Unknown message type received: '' @ t)
               | _ \<Rightarrow> ConsoleError ''Invalid message received from NMH.'') s) \<and>
      storage (snd (handleNMHMessage m s)) = storage s \<and>
      shared_record (snd (handleNMHMessage m s)) = shared_record s \<and>
      sent (snd (handleNMHMessage m s)) = sent s \<and>
      timers (snd (handleNMHMessage m s)) = timers s) \<and>
   (get_prop m ''type'' = Inr (JStr ''connected'') \<and> get_prop m ''data'' \<noteq> Inr (JBool True) \<longrightarrow>
      handleNMHMessage m s = (None, s) \<and> handleNMHMessage_sync ack m s = (Finished None, s))"
proof -
  let ?e = "case get_prop m ''type'' of
                Inr (JStr t) \<Rightarrow> ConsoleWarn (''Unknown message type received: '' @ t)
              | _ \<Rightarrow> ConsoleError ''Invalid message received from NMH.''"
  have drop: "handleNMHMessage m s = (None, emit ?e s)"
    if "get_prop m ''type'' \<noteq> Inr (JStr ''connected'')"
       "get_prop m ''type'' \<noteq> Inr (JStr ''devices'')"
  proof (cases "truthy m")
    case False
    then have "\<And>t. get_prop m ''type'' \<noteq> Inr (JStr t)" by (cases m) simp_all
    then have "?e = ConsoleError ''Invalid message received from NMH.''"
      by (auto split: sum.splits jsval.splits)
    with False show ?thesis by (simp add: handleNMHMessage_unfold)
  next
    case True
    then obtain ty where ty: "get_prop m ''type'' = Inr ty" by (cases m) simp_all
    show ?thesis
    proof (cases ty)
      case (JStr t)
      with that ty True show ?thesis by (simp add: handleNMHMessage_unfold)
    qed (use True ty in \<open>simp_all add: handleNMHMessage_unfold\<close>)
  qed
  have cons: "sent (emit e s) = sent s \<and> storage (emit e s) = storage s \<and>
              shared_record (emit e s) = shared_record s \<and> timers (emit e s) = timers s"
    if "\<And>p x. e \<noteq> PostMessage p x" for e
    using that by (cases e) (auto simp: sent_emit, simp_all add: emit_def shared_record_def)
  have nopost: "?e \<noteq> PostMessage p x" for p x
    by (simp split: sum.splits jsval.splits)
  have a: "handleNMHMessage m s = (None, emit ?e s) \<and>
           handleNMHMessage_sync ack m s = (Finished None, emit ?e s) \<and>
           storage (snd (handleNMHMessage m s)) = storage s \<and>
           shared_record (snd (handleNMHMessage m s)) = shared_record s \<and>
           sent (snd (handleNMHMessage m s)) = sent s \<and>
           timers (snd (handleNMHMessage m s)) = timers s"
    if "get_prop m ''type'' \<noteq> Inr (JStr ''connected'')"
       "get_prop m ''type'' \<noteq> Inr (JStr ''devices'')"
    using drop[OF that] handleNMHMessage_sync_finished[OF that(2), of ack s] cons[OF nopost]
    by simp
  have b: "handleNMHMessage m s = (None, s) \<and> handleNMHMessage_sync ack m s = (Finished None, s)"
    if c: "get_prop m ''type'' = Inr (JStr ''connected'')" "get_prop m ''data'' \<noteq> Inr (JBool True)"
  proof -
    have h: "handleNMHMessage m s = (None, s)"
      using c get_prop_obj[OF c(1)] get_prop_other[OF c(1), of "''data''"]
      by (auto simp: handleNMHMessage_unfold split: sum.splits)
    have "get_prop m ''type'' \<noteq> Inr (JStr ''devices'')" using c(1) by simp
    from handleNMHMessage_sync_finished[OF this, of ack s] h show ?thesis by simp
  qed
  show ?thesis using a b by blast
qed

theorem unknown_message_dropped_witness:
  "handleNMHMessage (JObj [(''type'', JStr ''ping'')]) (init Map.empty None) =
     (None, emit (ConsoleWarn ''Unknown message type received: ping'') (init Map.empty None)) \<and>
   handleNMHMessage JNull (init Map.empty None) =
     (None, emit (ConsoleError ''Invalid message received from NMH.'') (init Map.empty None)) \<and>
   handleNMHMessage_sync False (JObj [(''type'', JStr ''connected''), (''data'', JBool False)])
     (init Map.empty None) = (Finished None, init Map.empty None)"
  using unknown_message_dropped[of "JObj [(''type'', JStr ''ping'')]" "init Map.empty None" False]
        unknown_message_dropped[of JNull "init Map.empty None" False]
        unknown_message_dropped[of "JObj [(''type'', JStr ''connected''), (''data'', JBool False)]"
          "init Map.empty None" False]
  by simp

text \<open>
  The claim C7 as stated fails for the messages of a recognized type whose data has another
  shape. The data of a \<^verbatim>\<open>devices\<close> message is written to the store whatever it is, here
  a string, with \<^verbatim>\<open>connected: true\<close>, and a menu refresh is triggered. A
  \<^verbatim>\<open>connected\<close> message whose data is \<^verbatim>\<open>false\<close> is dropped, but nothing is logged.
\<close>

theorem devices_message_of_any_shape_written:
  "shared_record (init (map_of []) None) = (None, None) \<and>
   shared_record (snd (handleNMHMessage (JObj [(''type'', JStr ''devices''), (''data'', JStr ''oops'')])
                         (init (map_of []) None))) = (Some (JStr ''oops''), Some (JBool True)) \<and>
   trace (snd (handleNMHMessage (JObj [(''type'', JStr ''devices''), (''data'', JStr ''oops'')])
                         (init (map_of []) None))) =
     [StorageSet [(''devices'', JStr ''oops''), (''connected'', JBool True)],
      ClearTimeout None, SetTimeout 0 250] \<and>
   trace (snd (handleNMHMessage (JObj [(''type'', JStr ''connected''), (''data'', JBool False)])
                         (init (map_of []) None))) = []"
  by (simp add: handleNMHMessage_unfold shared_record_def init_def updateContextMenu_eq
        storage_local_set_def emit_def)

section \<open>The invariant of the shared record\<close>

lemma store_inv_reset:
  "store_inv (st(''devices'' \<mapsto> JArr [], ''connected'' \<mapsto> JBool False))"
  by (simp add: store_inv_def)

lemma store_inv_connected:
  "store_inv (st(''devices'' \<mapsto> d, ''connected'' \<mapsto> JBool True))"
  by (simp add: store_inv_def)

lemma connectToNMH_storage:
  "storage (connectToNMH ok s) =
     (if ok then storage s
      else (storage s)(''devices'' \<mapsto> JArr [], ''connected'' \<mapsto> JBool False))"
  by (simp add: connectToNMH_def onNMHDisconnect_eq prim_defs Let_def split: option.splits)

lemma store_inv_handleNMHMessage:
  assumes "store_inv (storage s)"
  shows "store_inv (storage (snd (handleNMHMessage m s)))"
proof -
  have "storage (snd (handleNMHMessage m s)) = storage s \<or>
        (\<exists>d. storage (snd (handleNMHMessage m s)) =
               (storage s)(''devices'' \<mapsto> d, ''connected'' \<mapsto> JBool True))"
    by (auto simp: handleNMHMessage_unfold sendMessageToNMH_frame updateContextMenu_eq
          storage_local_set_def emit_def split: sum.splits)
  with assms show ?thesis by (auto simp: store_inv_connected)
qed

lemma store_inv_deliver_message:
  assumes "store_inv (storage s)"
  shows "store_inv (storage (deliver_message p m s))"
proof -
  have "store_inv (storage (fold (\<lambda>l s'. case l of HandleNMHMessage \<Rightarrow> snd (handleNMHMessage m s')) ls s))"
    for ls
    using assms
    by (induction ls arbitrary: s) (simp_all add: store_inv_handleNMHMessage split: message_listener.splits)
  then show ?thesis using assms by (simp add: deliver_message_def)
qed

lemma store_inv_deliver_message_begin:
  assumes "store_inv (storage s)"
  shows "store_inv (storage (deliver_message_begin ack p m s))"
proof -
  have "store_inv (storage s') \<Longrightarrow>
        store_inv (storage (fold (\<lambda>l s'. case l of HandleNMHMessage \<Rightarrow>
                   (case handleNMHMessage_sync ack m s' of
                      (Finished r, s1) \<Rightarrow> s1
                    | (AwaitingWrite, s1) \<Rightarrow> s1\<lparr>awaiting := awaiting s1 @ [ack]\<rparr>)) ls s'))"
    for ls s'
  proof (induction ls arbitrary: s')
    case Nil
    then show ?case by simp
  next
    case (Cons l ls)
    obtain r s1 where h: "handleNMHMessage_sync ack m s' = (r, s1)"
      by (cases "handleNMHMessage_sync ack m s'")
    have "store_inv (storage s1)"
      using handleNMHMessage_sync_storage[of ack m s'] h Cons.prems
      by (auto simp: store_inv_connected)
    then show ?case
      by (cases l; cases r) (simp_all add: h Cons.IH)
  qed
  then show ?thesis using assms by (simp add: deliver_message_begin_def)
qed

lemma store_inv_deliver_disconnect:
  assumes "store_inv (storage s)"
  shows "store_inv (storage (deliver_disconnect p s))"
proof -
  have "store_inv (storage s') \<Longrightarrow>
        store_inv (storage (fold (\<lambda>l s'. case l of OnNMHDisconnect \<Rightarrow> onNMHDisconnect s') ls s'))"
    for ls s'
    by (induction ls arbitrary: s')
       (simp_all add: onNMHDisconnect_eq store_inv_reset split: disconnect_listener.splits)
  then show ?thesis using assms by (simp add: deliver_disconnect_def)
qed

lemma store_inv_step:
  assumes "store_inv (storage s)"
  shows "store_inv (storage (step ev s))"
proof (cases ev)
  case (OnInstalled ok)
  with assms show ?thesis
    by (simp add: initializeState_chan connectToNMH_storage store_inv_reset)
next
  case (OnStartup ok)
  with assms show ?thesis
    by (simp add: initializeState_chan connectToNMH_storage store_inv_reset)
next
  case (PortMessage p m)
  with assms show ?thesis by (simp add: store_inv_deliver_message)
next
  case (PortDisconnected p)
  with assms show ?thesis by (simp add: store_inv_deliver_disconnect)
next
  case (RuntimeMessage m sd)
  with assms show ?thesis by (simp add: handleRuntimeMessage_frame)
next
  case (MenuClicked i)
  with assms show ?thesis by (simp add: handleContextMenuClick_def emit_def)
next
  case (TabActivated t)
  with assms show ?thesis by (simp add: updateContextMenu_eq updateIconState_emit emit_def)
next
  case (TabUpdated i url)
  with assms show ?thesis
    by (auto simp: updateContextMenu_eq updateIconState_emit emit_def tab_navigated_def Let_def
          split: option.splits)
next
  case (Advance d)
  with assms show ?thesis by (simp add: advance_frame)
next
  case (SetFault f)
  with assms show ?thesis by simp
next
  case (PortMessageBegins p m ack)
  with assms show ?thesis by (simp add: store_inv_deliver_message_begin)
next
  case WriteSettles
  with assms show ?thesis by (simp add: write_settles_frame)
next
  case (TabActivatedGetFails i)
  with assms show ?thesis by simp
qed

lemma store_inv_run: "store_inv (storage s) \<Longrightarrow> store_inv (storage (run evs s))"
  unfolding run_def by (induction evs arbitrary: s) (simp_all add: store_inv_step)

text \<open>
  C5, as the code has it. Every event the script handles, in any state, preserves the
  invariant of the record (no devices while \<^verbatim>\<open>connected\<close> is false), since each write sets
  both keys together. So the invariant holds in every reachable state, provided the store
  the script starts from satisfies it, as the empty store of a first install does. Start-up
  itself writes nothing when the channel opens: the record is left as it was; only when
  the open fails is \<^verbatim>\<open>{devices: [], connected: false}\<close> written.
\<close>

theorem record_invariant:
  "(store_inv (storage s) \<longrightarrow> store_inv (storage (step ev s))) \<and>
   (store_inv st \<longrightarrow> store_inv (storage (run evs (init st tb)))) \<and>
   store_inv (storage (run evs (init Map.empty tb))) \<and>
   storage (step (OnInstalled True) s) = storage s \<and>
   storage (step (OnStartup True) s) = storage s \<and>
   shared_record (step (OnInstalled False) s) = (Some (JArr []), Some (JBool False))"
proof -
  have a: "store_inv st \<Longrightarrow> store_inv (storage (run evs (init st tb)))" for st
    by (rule store_inv_run) (simp add: init_def)
  have b: "store_inv Map.empty" by (simp add: store_inv_def)
  show ?thesis
    using a a[OF b] store_inv_step[of s ev]
    by (simp add: initializeState_chan connectToNMH_storage shared_record_def)
qed

theorem record_invariant_witness:
  "store_inv (storage (run [OnInstalled True,
       PortMessage 0 (JObj [(''type'', JStr ''devices''), (''data'', JArr [JStr ''a''])]),
       PortDisconnected 0] (init Map.empty None))) \<and>
   store_inv (storage (step (PortDisconnected 0) (connectToNMH True (init Map.empty None))))"
  using record_invariant[where s = "connectToNMH True (init Map.empty None)"
          and ev = "PortDisconnected 0" and st = Map.empty and tb = None
          and evs = "[OnInstalled True,
       PortMessage 0 (JObj [(''type'', JStr ''devices''), (''data'', JArr [JStr ''a''])]),
       PortDisconnected 0]"]
  by (simp add: store_inv_def connectToNMH_storage init_def)

text \<open>
  The claim C5 as stated fails in its first part: after a start-up whose channel opens,
  the record has not been created (both keys are absent after a first install), and a
  record left by an earlier session stays as it was, \<^verbatim>\<open>connected: true\<close> included.
\<close>

theorem record_not_created_at_startup:
  "shared_record (step (OnInstalled True) (init (map_of []) None)) = (None, None) \<and>
   shared_record (step (OnStartup True)
       (init (map_of [(''devices'', JArr [JStr ''a'']), (''connected'', JBool True)]) None)) =
     (Some (JArr [JStr ''a'']), Some (JBool True))"
  by (simp add: shared_record_def initializeState_chan connectToNMH_storage init_def)

section \<open>The debounce of the menu refresh\<close>

lemma rebuilds_trace_append:
  "trace s' = trace s @ es \<Longrightarrow>
   rebuilds s' = rebuilds s @ concat (map (\<lambda>e. case e of TimerFired h \<Rightarrow> [h] | _ \<Rightarrow> []) es)"
  by (simp add: rebuilds_def)

lemma rebuilds_trace_eq: "trace s' = trace s \<Longrightarrow> rebuilds s' = rebuilds s"
  by (simp add: rebuilds_def)

lemma rebuilds_callback: "rebuilds (updateContextMenu_callback s) = rebuilds s"
  by (simp add: rebuilds_def updateContextMenu_callback_def contextMenus_removeAll_def
        tabs_query_def contextMenus_create_def emit_def Let_def split: option.splits list.splits)

lemma rebuilds_updateContextMenu: "rebuilds (updateContextMenu delay s) = rebuilds s"
  by (simp add: rebuilds_def updateContextMenu_eq)

text \<open>Under the timer invariant no timer is pending, or exactly the one the handle names.\<close>

lemma timer_inv_cases:
  "timer_inv s \<Longrightarrow> timers s = [] \<or> (\<exists>h due. timers s = [(h, due)] \<and> updateContextMenuTimeout s = Some h)"
  by (auto simp: timer_inv_def split: list.splits)

lemma updateContextMenu_timers:
  assumes "timer_inv s"
  shows "timers (updateContextMenu delay s) =
           [(next_timer s, now s + (case delay of None \<Rightarrow> 250 | Some d \<Rightarrow> d))]"
  using timer_inv_cases[OF assms] by (auto simp: updateContextMenu_eq)

lemma timer_inv_updateContextMenu: "timer_inv s \<Longrightarrow> timer_inv (updateContextMenu delay s)"
  using updateContextMenu_timers[of s delay]
  by (simp add: timer_inv_def) (simp add: updateContextMenu_eq)

lemma timer_inv_cong:
  "timers s' = timers s \<Longrightarrow> updateContextMenuTimeout s' = updateContextMenuTimeout s \<Longrightarrow>
   timer_inv s' = timer_inv s"
  by (auto simp: timer_inv_def split: list.splits)

lemma timer_inv_frame:
  "timer_inv s \<Longrightarrow> timers s' = timers s \<Longrightarrow>
   updateContextMenuTimeout s' = updateContextMenuTimeout s \<Longrightarrow> timer_inv s'"
  using timer_inv_cong[of s' s] by simp

lemma advance_not_due:
  assumes "timers s = [(h, due)]" and "now s + g < due"
  shows "advance g s = s\<lparr>now := now s + g\<rparr>"
  using assms by (simp add: advance_def)

lemma advance_due:
  assumes "timers s = [(h, due)]" and "due \<le> now s + d"
  shows "advance d s =
           (updateContextMenu_callback (emit (TimerFired h) (s\<lparr>timers := []\<rparr>)))\<lparr>now := now s + d\<rparr>"
  using assms by (simp add: advance_def run_timer_def)

lemma advance_no_timer:
  assumes "timers s = []"
  shows "advance d s = s\<lparr>now := now s + d\<rparr>"
  using assms by (simp add: advance_def)

lemma timer_inv_advance: "timer_inv s \<Longrightarrow> timer_inv (advance d s)"
proof -
  assume inv: "timer_inv s"
  from timer_inv_cases[OF inv] show ?thesis
  proof
    assume "timers s = []"
    then have "advance d s = s\<lparr>now := now s + d\<rparr>" by (rule advance_no_timer)
    then show ?thesis using timer_inv_frame[OF inv, of "s\<lparr>now := now s + d\<rparr>"] by simp
  next
    assume "\<exists>h due. timers s = [(h, due)] \<and> updateContextMenuTimeout s = Some h"
    then obtain h due where t: "timers s = [(h, due)]" and u: "updateContextMenuTimeout s = Some h"
      by blast
    show ?thesis
    proof (cases "due \<le> now s + d")
      case True
      show ?thesis unfolding advance_due[OF t True]
        by (simp add: timer_inv_def callback_frame emit_def)
    next
      case False
      then have "now s + d < due" by simp
      from advance_not_due[OF t this]
      show ?thesis using timer_inv_frame[OF inv, of "s\<lparr>now := now s + d\<rparr>"] by simp
    qed
  qed
qed

lemma handleNMHMessage_devices:
  assumes "get_prop m ''type'' = Inr (JStr ''devices'')"
  shows "\<exists>d. get_prop m ''data'' = Inr d \<and>
             handleNMHMessage m s =
               (None, updateContextMenu None
                        (storage_local_set [(''devices'', d), (''connected'', JBool True)] s))"
proof -
  from get_prop_other[OF assms] obtain d where d: "get_prop m ''data'' = Inr d" by blast
  have "handleNMHMessage m s =
               (None, updateContextMenu None
                        (storage_local_set [(''devices'', d), (''connected'', JBool True)] s))"
    using assms d get_prop_obj[OF assms] by (simp add: handleNMHMessage_unfold)
  with d show ?thesis by blast
qed

lemma handleNMHMessage_not_devices:
  assumes "get_prop m ''type'' \<noteq> Inr (JStr ''devices'')"
  shows "timers (snd (handleNMHMessage m s)) = timers s"
    and "updateContextMenuTimeout (snd (handleNMHMessage m s)) = updateContextMenuTimeout s"
    and "next_timer (snd (handleNMHMessage m s)) = next_timer s"
    and "storage (snd (handleNMHMessage m s)) = storage s"
    and "rebuilds (snd (handleNMHMessage m s)) = rebuilds s"
  using assms
  by (simp_all add: handleNMHMessage_unfold sendMessageToNMH_frame emit_def rebuilds_def
        sendMessageToNMH_def postMessage_def split: sum.splits option.splits)

lemma timer_inv_handleNMHMessage: "timer_inv s \<Longrightarrow> timer_inv (snd (handleNMHMessage m s))"
proof -
  assume inv: "timer_inv s"
  show ?thesis
  proof (cases "get_prop m ''type'' = Inr (JStr ''devices'')")
    case True
    from handleNMHMessage_devices[OF True, of s] obtain d where
      h: "handleNMHMessage m s =
               (None, updateContextMenu None
                        (storage_local_set [(''devices'', d), (''connected'', JBool True)] s))"
      by blast
    have "timer_inv (storage_local_set [(''devices'', d), (''connected'', JBool True)] s)"
      by (rule timer_inv_frame[OF inv]) (simp_all add: storage_local_set_def emit_def)
    then show ?thesis unfolding h by (simp add: timer_inv_updateContextMenu)
  next
    case False
    show ?thesis
      by (rule timer_inv_frame[OF inv]) (simp_all add: handleNMHMessage_not_devices[OF False])
  qed
qed

lemma timer_inv_deliver_message: "timer_inv s \<Longrightarrow> timer_inv (deliver_message p m s)"
proof -
  assume inv: "timer_inv s"
  have "timer_inv s' \<Longrightarrow>
        timer_inv (fold (\<lambda>l s'. case l of HandleNMHMessage \<Rightarrow> snd (handleNMHMessage m s')) ls s')"
    for ls s'
    by (induction ls arbitrary: s')
       (simp_all add: timer_inv_handleNMHMessage split: message_listener.splits)
  then show ?thesis using inv by (simp add: deliver_message_def)
qed

lemma timer_inv_deliver_disconnect: "timer_inv s \<Longrightarrow> timer_inv (deliver_disconnect p s)"
proof -
  assume inv: "timer_inv s"
  have dis: "timer_inv (onNMHDisconnect s') = timer_inv s'" for s'
    by (rule timer_inv_cong) (simp_all add: onNMHDisconnect_eq)
  have "timer_inv s' \<Longrightarrow>
        timer_inv (fold (\<lambda>l s'. case l of OnNMHDisconnect \<Rightarrow> onNMHDisconnect s') ls s')"
    for ls s'
    by (induction ls arbitrary: s')
       (simp_all add: dis split: disconnect_listener.splits)
  moreover have "timer_inv (s\<lparr>ports := (ports s)[p := (ports s ! p)\<lparr>port_open := False\<rparr>]\<rparr>)"
    by (rule timer_inv_frame[OF inv]) simp_all
  ultimately show ?thesis using inv by (simp add: deliver_disconnect_def)
qed

lemma connectToNMH_timers:
  "timers (connectToNMH ok s) = timers s"
  "updateContextMenuTimeout (connectToNMH ok s) = updateContextMenuTimeout s"
  by (simp_all add: connectToNMH_def onNMHDisconnect_eq prim_defs Let_def split: option.splits)

lemma timer_inv_step:
  assumes "timer_inv s"
  shows "timer_inv (step ev s)"
proof (cases ev)
  case (OnInstalled ok)
  have "timer_inv (snd (initializeState ok s))"
    by (rule timer_inv_frame[OF assms]) (simp_all add: initializeState_chan connectToNMH_timers)
  with OnInstalled show ?thesis by simp
next
  case (OnStartup ok)
  have "timer_inv (snd (initializeState ok s))"
    by (rule timer_inv_frame[OF assms]) (simp_all add: initializeState_chan connectToNMH_timers)
  with OnStartup show ?thesis by simp
next
  case (PortMessage p m)
  with assms show ?thesis by (simp add: timer_inv_deliver_message)
next
  case (PortDisconnected p)
  with assms show ?thesis by (simp add: timer_inv_deliver_disconnect)
next
  case (RuntimeMessage m sd)
  have "timer_inv (snd (handleRuntimeMessage m sd s))"
    by (rule timer_inv_frame[OF assms]) (simp_all add: handleRuntimeMessage_frame)
  with RuntimeMessage show ?thesis by simp
next
  case (MenuClicked i)
  have "timer_inv (handleContextMenuClick i s)"
    by (rule timer_inv_frame[OF assms]) (simp_all add: handleContextMenuClick_def emit_def)
  with MenuClicked show ?thesis by simp
next
  case (TabActivated t)
  have "timer_inv (updateIconState (tab_id t) (tab_url t) (s\<lparr>active_tab := Some t\<rparr>))"
    by (rule timer_inv_frame[OF assms]) (simp_all add: updateIconState_emit emit_def)
  with TabActivated show ?thesis by (simp add: timer_inv_updateContextMenu)
next
  case (TabUpdated i url)
  have a: "timer_inv (tab_navigated i url s)"
    by (rule timer_inv_frame[OF assms]) (simp_all add: tab_navigated_def split: option.splits)
  have "timer_inv (updateIconState i url (tab_navigated i url s))"
    by (rule timer_inv_frame[OF a]) (simp_all add: updateIconState_emit emit_def)
  with a TabUpdated show ?thesis by (simp add: timer_inv_updateContextMenu Let_def)
next
  case (Advance d)
  with assms show ?thesis by (simp add: timer_inv_advance)
next
  case (SetFault f)
  have "timer_inv (s\<lparr>fault := f\<rparr>)" by (rule timer_inv_frame[OF assms]) simp_all
  with SetFault show ?thesis by simp
next
  case (PortMessageBegins p m ack)
  have "timer_inv (deliver_message_begin ack p m s)"
    by (rule timer_inv_frame[OF assms]) (simp_all add: deliver_message_begin_frame)
  with PortMessageBegins show ?thesis by simp
next
  case WriteSettles
  have "timer_inv (write_settles s)"
  proof (cases "awaiting s")
    case Nil
    then show ?thesis using assms by (simp add: write_settles_def)
  next
    case (Cons ack rest)
    have a: "timer_inv (s\<lparr>awaiting := rest\<rparr>)" by (rule timer_inv_frame[OF assms]) simp_all
    show ?thesis
      using Cons a timer_inv_updateContextMenu[OF a, of None]
      by (simp add: write_settles_def handleNMHMessage_cont_def)
  qed
  with WriteSettles show ?thesis by simp
next
  case (TabActivatedGetFails i)
  with assms show ?thesis by simp
qed

lemma timer_inv_run: "timer_inv s \<Longrightarrow> timer_inv (run evs s)"
  unfolding run_def by (induction evs arbitrary: s) (simp_all add: timer_inv_step)

lemma timer_inv_reachable: "timer_inv (run evs (init st tb))"
  by (rule timer_inv_run) (simp add: timer_inv_def init_def)

lemma timer_inv_at_most_one: "timer_inv s \<Longrightarrow> length (timers s) \<le> 1"
  using timer_inv_cases[of s] by auto


subsection \<open>One refresh for a list of devices\<close>

lemma awaiting_reset: "awaiting s = [] \<Longrightarrow> s\<lparr>awaiting := []\<rparr> = s"
  by (cases s) simp

lemma deliver_message_begin_inv:
  "chan_inv s \<Longrightarrow> deliver_message_begin ack p m s =
     (if p < length (ports s) \<and> port_open (ports s ! p)
      then (case handleNMHMessage_sync ack m s of
              (Finished r, s1) \<Rightarrow> s1
            | (AwaitingWrite, s1) \<Rightarrow> s1\<lparr>awaiting := awaiting s1 @ [ack]\<rparr>)
      else s)"
  by (auto simp: deliver_message_begin_def chan_inv_def)

text \<open>
  C6. A message of type \<^verbatim>\<open>devices\<close> with the data \<^verbatim>\<open>[d1, d2]\<close>, handled with its write
  acknowledged, makes one write of \<^verbatim>\<open>{devices: [d1, d2], connected: true}\<close> to the store
  and then one call of \<^verbatim>\<open>updateContextMenu\<close>: the record holds exactly these two values;
  the trace grows by the write, one \<^verbatim>\<open>clearTimeout\<close> and one \<^verbatim>\<open>setTimeout\<close> of 250 ms;
  the timer the handle named before is cancelled, the new timer is pending, due 250 ms
  from now, and the handle names it; in a reachable state it is the only pending timer, and
  an open port delivers the message to this handler. Step by step: up to its
  \<^verbatim>\<open>await\<close> the handler makes the write, if the store takes it, and sets no timer; the
  refresh follows once the write is acknowledged, and only then: when the store rejects the
  write, the store is left as it was, the rejection escapes the handler and no refresh is
  triggered.
\<close>

theorem devices_message_written:
  assumes "get_prop m ''type'' = Inr (JStr ''devices'')"
      and "get_prop m ''data'' = Inr (JArr [d1, d2])"
  shows "handleNMHMessage m s =
           (None, updateContextMenu None
                    (storage_local_set [(''devices'', JArr [d1, d2]), (''connected'', JBool True)] s)) \<and>
         storage (snd (handleNMHMessage m s)) =
           (storage s)(''devices'' \<mapsto> JArr [d1, d2], ''connected'' \<mapsto> JBool True) \<and>
         shared_record (snd (handleNMHMessage m s)) = (Some (JArr [d1, d2]), Some (JBool True)) \<and>
         trace (snd (handleNMHMessage m s)) =
           trace s @ [StorageSet [(''devices'', JArr [d1, d2]), (''connected'', JBool True)],
                      ClearTimeout (updateContextMenuTimeout s), SetTimeout (next_timer s) 250] \<and>
         timers (snd (handleNMHMessage m s)) =
           filter (\<lambda>(i, due). Some i \<noteq> updateContextMenuTimeout s) (timers s) @
           [(next_timer s, now s + 250)] \<and>
         updateContextMenuTimeout (snd (handleNMHMessage m s)) = Some (next_timer s) \<and>
         next_timer (snd (handleNMHMessage m s)) = Suc (next_timer s) \<and>
         (let s0 = run evs (init st tb) in
            timers (snd (handleNMHMessage m s0)) = [(next_timer s0, now s0 + 250)] \<and>
            (p < length (ports s0) \<and> port_open (ports s0 ! p) \<longrightarrow>
               step (PortMessage p m) s0 = snd (handleNMHMessage m s0) \<and>
               step (PortMessageBegins p m True) s0 =
                 (storage_local_set [(''devices'', JArr [d1, d2]), (''connected'', JBool True)] s0)
                   \<lparr>awaiting := awaiting s0 @ [True]\<rparr> \<and>
               step (PortMessageBegins p m False) s0 = s0\<lparr>awaiting := awaiting s0 @ [False]\<rparr> \<and>
               (awaiting s0 = [] \<longrightarrow>
                  step WriteSettles (step (PortMessageBegins p m True) s0) =
                    step (PortMessage p m) s0 \<and>
                  step WriteSettles (step (PortMessageBegins p m False) s0) = s0))) \<and>
         handleNMHMessage_sync True m s =
           (AwaitingWrite,
            storage_local_set [(''devices'', JArr [d1, d2]), (''connected'', JBool True)] s) \<and>
         handleNMHMessage_sync False m s = (AwaitingWrite, s) \<and>
         timers (snd (handleNMHMessage_sync ack m s)) = timers s \<and>
         updateContextMenuTimeout (snd (handleNMHMessage_sync ack m s)) = updateContextMenuTimeout s \<and>
         handleNMHMessage_cont True s = (None, updateContextMenu None s) \<and>
         handleNMHMessage_cont False s = (Some Error, s)"
proof -
  let ?items = "[(''devices'', JArr [d1, d2]), (''connected'', JBool True)]"
  note obj = get_prop_obj[OF assms(1)]
  have h: "handleNMHMessage m s' = (None, updateContextMenu None (storage_local_set ?items s'))" for s'
    using assms obj by (simp add: handleNMHMessage_unfold)
  have sync: "handleNMHMessage_sync ack' m s' =
              (AwaitingWrite, if ack' then storage_local_set ?items s' else s')" for ack' s'
    using assms obj by (simp add: handleNMHMessage_sync_def storage_local_set_awaited_def)
  have basic: "storage (snd (handleNMHMessage m s)) =
           (storage s)(''devices'' \<mapsto> JArr [d1, d2], ''connected'' \<mapsto> JBool True) \<and>
         shared_record (snd (handleNMHMessage m s)) = (Some (JArr [d1, d2]), Some (JBool True)) \<and>
         trace (snd (handleNMHMessage m s)) =
           trace s @ [StorageSet ?items,
                      ClearTimeout (updateContextMenuTimeout s), SetTimeout (next_timer s) 250] \<and>
         timers (snd (handleNMHMessage m s)) =
           filter (\<lambda>(i, due). Some i \<noteq> updateContextMenuTimeout s) (timers s) @
           [(next_timer s, now s + 250)] \<and>
         updateContextMenuTimeout (snd (handleNMHMessage m s)) = Some (next_timer s) \<and>
         next_timer (snd (handleNMHMessage m s)) = Suc (next_timer s)"
    unfolding h
    by (simp add: updateContextMenu_eq storage_local_set_def emit_def shared_record_def)
  define s0 where "s0 = run evs (init st tb)"
  have cinv: "chan_inv s0" unfolding s0_def by (rule chan_inv_reachable)
  have tinv: "timer_inv s0" unfolding s0_def by (rule timer_inv_reachable)
  have tinv': "timer_inv (storage_local_set ?items s0)"
    using tinv by (auto simp: timer_inv_def storage_local_set_def emit_def split: list.splits)
  have t0: "timers (snd (handleNMHMessage m s0)) = [(next_timer s0, now s0 + 250)]"
  proof -
    have "timers (updateContextMenu None (storage_local_set ?items s0)) =
          [(next_timer (storage_local_set ?items s0), now (storage_local_set ?items s0) + 250)]"
      using timer_inv_cases[OF tinv'] by (auto simp: updateContextMenu_eq)
    then show ?thesis by (simp add: h storage_local_set_def emit_def)
  qed
  have ev: "step (PortMessage p m) s0 = snd (handleNMHMessage m s0) \<and>
            step (PortMessageBegins p m True) s0 =
              (storage_local_set ?items s0)\<lparr>awaiting := awaiting s0 @ [True]\<rparr> \<and>
            step (PortMessageBegins p m False) s0 = s0\<lparr>awaiting := awaiting s0 @ [False]\<rparr> \<and>
            (awaiting s0 = [] \<longrightarrow>
               step WriteSettles (step (PortMessageBegins p m True) s0) = step (PortMessage p m) s0 \<and>
               step WriteSettles (step (PortMessageBegins p m False) s0) = s0)"
    if op: "p < length (ports s0)" "port_open (ports s0 ! p)"
  proof -
    have a: "step (PortMessage p m) s0 = snd (handleNMHMessage m s0)"
      using op by (simp add: deliver_message_inv[OF cinv])
    have aw: "awaiting (storage_local_set ?items s0) = awaiting s0"
      by (simp add: storage_local_set_def emit_def)
    have b: "step (PortMessageBegins p m True) s0 =
              (storage_local_set ?items s0)\<lparr>awaiting := awaiting s0 @ [True]\<rparr>"
      using op by (simp add: deliver_message_begin_inv[OF cinv] sync aw)
    have c: "step (PortMessageBegins p m False) s0 = s0\<lparr>awaiting := awaiting s0 @ [False]\<rparr>"
      using op by (simp add: deliver_message_begin_inv[OF cinv] sync)
    have d: "step WriteSettles (step (PortMessageBegins p m True) s0) = step (PortMessage p m) s0"
      if e: "awaiting s0 = []"
    proof -
      have "(storage_local_set ?items s0)\<lparr>awaiting := []\<rparr> = storage_local_set ?items s0"
        by (rule awaiting_reset) (simp add: aw e)
      then show ?thesis
        unfolding a b by (simp add: write_settles_def e handleNMHMessage_cont_def h)
    qed
    have f: "step WriteSettles (step (PortMessageBegins p m False) s0) = s0"
      if e: "awaiting s0 = []"
      unfolding c using awaiting_reset[OF e]
      by (simp add: write_settles_def e handleNMHMessage_cont_def)
    show ?thesis using a b c d f by blast
  qed
  have fr: "timers (snd (handleNMHMessage_sync ack m s)) = timers s \<and>
         updateContextMenuTimeout (snd (handleNMHMessage_sync ack m s)) = updateContextMenuTimeout s"
    by (simp add: handleNMHMessage_sync_frame)
  have cont: "handleNMHMessage_cont True s = (None, updateContextMenu None s) \<and>
         handleNMHMessage_cont False s = (Some Error, s)"
    by (simp add: handleNMHMessage_cont_def)
  have syncT: "handleNMHMessage_sync True m s = (AwaitingWrite, storage_local_set ?items s)"
    using sync[of True s] by simp
  have syncF: "handleNMHMessage_sync False m s = (AwaitingWrite, s)"
    using sync[of False s] by simp
  show ?thesis
    unfolding Let_def s0_def[symmetric]
    using h[of s] basic t0 ev syncT syncF fr cont by blast
qed

theorem devices_message_written_witness:
  "shared_record (snd (handleNMHMessage
       (JObj [(''type'', JStr ''devices''), (''data'', JArr [JStr ''a'', JStr ''b''])])
       (init Map.empty None))) = (Some (JArr [JStr ''a'', JStr ''b'']), Some (JBool True)) \<and>
   trace (snd (handleNMHMessage
       (JObj [(''type'', JStr ''devices''), (''data'', JArr [JStr ''a'', JStr ''b''])])
       (init Map.empty None))) =
     [StorageSet [(''devices'', JArr [JStr ''a'', JStr ''b'']), (''connected'', JBool True)],
      ClearTimeout None, SetTimeout 0 250] \<and>
   timers (snd (handleNMHMessage
       (JObj [(''type'', JStr ''devices''), (''data'', JArr [JStr ''a'', JStr ''b''])])
       (init Map.empty None))) = [(0, 250)] \<and>
   timers (step (PortMessage 0
                   (JObj [(''type'', JStr ''devices''), (''data'', JArr [JStr ''a'', JStr ''b''])]))
             (run [OnInstalled True] (init Map.empty None))) = [(0, 250)] \<and>
   step WriteSettles
     (step (PortMessageBegins 0
              (JObj [(''type'', JStr ''devices''), (''data'', JArr [JStr ''a'', JStr ''b''])]) False)
        (run [OnInstalled True] (init Map.empty None))) =
     run [OnInstalled True] (init Map.empty None)"
proof -
  define m where "m = JObj [(''type'', JStr ''devices''), (''data'', JArr [JStr ''a'', JStr ''b''])]"
  define s0 where "s0 = run [OnInstalled True] (init Map.empty None)"
  have ty: "get_prop m ''type'' = Inr (JStr ''devices'')" by (simp add: m_def)
  have da: "get_prop m ''data'' = Inr (JArr [JStr ''a'', JStr ''b''])" by (simp add: m_def)
  note th1 = devices_message_written[OF ty da, of "init Map.empty None" "[OnInstalled True]"
                Map.empty None 0 True]
  have s0: "ports s0 = [\<lparr>port_open = True, onDisconnect = [OnNMHDisconnect],
                          onMessage = [HandleNMHMessage]\<rparr>] \<and>
            awaiting s0 = [] \<and> next_timer s0 = 0 \<and> now s0 = 0"
    by (simp add: s0_def run_def init_def initializeState_def connectToNMH_def prim_defs)
  from th1 have
    a: "shared_record (snd (handleNMHMessage m (init Map.empty None))) =
          (Some (JArr [JStr ''a'', JStr ''b'']), Some (JBool True))" and
    b: "trace (snd (handleNMHMessage m (init Map.empty None))) =
          trace (init Map.empty None) @
          [StorageSet [(''devices'', JArr [JStr ''a'', JStr ''b'']), (''connected'', JBool True)],
           ClearTimeout (updateContextMenuTimeout (init Map.empty None)),
           SetTimeout (next_timer (init Map.empty None)) 250]" and
    c: "timers (snd (handleNMHMessage m (init Map.empty None))) =
          filter (\<lambda>(i, due). Some i \<noteq> updateContextMenuTimeout (init Map.empty None))
            (timers (init Map.empty None)) @
          [(next_timer (init Map.empty None), now (init Map.empty None) + 250)]" and
    d: "timers (snd (handleNMHMessage m s0)) = [(next_timer s0, now s0 + 250)]" and
    e: "0 < length (ports s0) \<and> port_open (ports s0 ! 0) \<longrightarrow>
          step (PortMessage 0 m) s0 = snd (handleNMHMessage m s0) \<and>
          (awaiting s0 = [] \<longrightarrow> step WriteSettles (step (PortMessageBegins 0 m False) s0) = s0)"
    unfolding Let_def s0_def[symmetric] by blast+
  from a b c d e s0 have
    "shared_record (snd (handleNMHMessage m (init Map.empty None))) =
       (Some (JArr [JStr ''a'', JStr ''b'']), Some (JBool True)) \<and>
     trace (snd (handleNMHMessage m (init Map.empty None))) =
       [StorageSet [(''devices'', JArr [JStr ''a'', JStr ''b'']), (''connected'', JBool True)],
        ClearTimeout None, SetTimeout 0 250] \<and>
     timers (snd (handleNMHMessage m (init Map.empty None))) = [(0, 250)] \<and>
     timers (step (PortMessage 0 m) s0) = [(0, 250)] \<and>
     step WriteSettles (step (PortMessageBegins 0 m False) s0) = s0"
    by (simp add: init_def)
  then show ?thesis unfolding m_def s0_def .
qed

subsection \<open>A burst of triggers\<close>

lemma is_trigger_ports: "ports s' = ports s \<Longrightarrow> is_trigger s' ev = is_trigger s ev"
  by (cases ev) simp_all

lemma trigger_is_updateContextMenu:
  assumes "chan_inv s" and "is_trigger s ev"
  shows "\<exists>g. step ev s = updateContextMenu None g \<and> timers g = timers s \<and>
             updateContextMenuTimeout g = updateContextMenuTimeout s \<and>
             next_timer g = next_timer s \<and> now g = now s \<and> ports g = ports s \<and>
             nmhPort g = nmhPort s \<and> rebuilds g = rebuilds s"
proof (cases ev)
  case (TabActivated t)
  show ?thesis
    by (rule exI[of _ "updateIconState (tab_id t) (tab_url t) (s\<lparr>active_tab := Some t\<rparr>)"])
       (simp add: TabActivated updateIconState_emit emit_def rebuilds_def)
next
  case (TabUpdated i url)
  with assms(2) have u: "url \<noteq> None \<and> url \<noteq> Some []" by simp
  show ?thesis
    by (rule exI[of _ "updateIconState i url (tab_navigated i url s)"])
       (simp add: TabUpdated u updateIconState_emit emit_def rebuilds_def tab_navigated_def
          split: option.splits)
next
  case (PortMessage p m)
  with assms(2) have op: "p < length (ports s)" "port_open (ports s ! p)"
    and ty: "get_prop m ''type'' = Inr (JStr ''devices'')" by simp_all
  from handleNMHMessage_devices[OF ty, of s] obtain d where
    h: "handleNMHMessage m s =
          (None, updateContextMenu None
                   (storage_local_set [(''devices'', d), (''connected'', JBool True)] s))"
    by blast
  show ?thesis
    by (rule exI[of _ "storage_local_set [(''devices'', d), (''connected'', JBool True)] s"])
       (simp add: PortMessage deliver_message_inv[OF assms(1)] op h storage_local_set_def
          emit_def rebuilds_def)
qed (use assms(2) in simp_all)

lemma trigger_step:
  assumes "chan_inv s" and "timer_inv s" and "is_trigger s ev"
  shows "timers (step ev s) = [(next_timer s, now s + 250)] \<and>
         updateContextMenuTimeout (step ev s) = Some (next_timer s) \<and>
         next_timer (step ev s) = Suc (next_timer s) \<and> now (step ev s) = now s \<and>
         ports (step ev s) = ports s \<and> rebuilds (step ev s) = rebuilds s"
proof -
  from trigger_is_updateContextMenu[OF assms(1,3)] obtain g where
    g: "step ev s = updateContextMenu None g" "timers g = timers s"
       "updateContextMenuTimeout g = updateContextMenuTimeout s"
       "next_timer g = next_timer s" "now g = now s" "ports g = ports s"
       "rebuilds g = rebuilds s" by blast
  have inv: "timer_inv g" by (rule timer_inv_frame[OF assms(2)]) (simp_all add: g)
  have "timers (updateContextMenu None g) = [(next_timer g, now g + 250)]"
    using updateContextMenu_timers[OF inv, of None] by simp
  then show ?thesis unfolding g(1)
    using g(2-) by (simp add: rebuilds_updateContextMenu) (simp add: updateContextMenu_eq)
qed

lemma run_append: "run (xs @ ys) s = run ys (run xs s)"
  by (simp add: run_def)

lemma run_Cons: "run (x # xs) s = run xs (step x s)"
  by (simp add: run_def)

lemma run_Nil: "run [] s = s"
  by (simp add: run_def)

lemma burst_tail:
  assumes "chan_inv s"
      and "timers s = [(next_timer s - 1, now s + 250)]"
      and "updateContextMenuTimeout s = Some (next_timer s - 1)"
      and "\<forall>x \<in> set rest. fst x < 250 \<and> is_trigger s (snd x)"
  shows "timers (run (concat (map (\<lambda>(g, ev). [Advance g, ev]) rest)) s) =
           [(next_timer (run (concat (map (\<lambda>(g, ev). [Advance g, ev]) rest)) s) - 1,
             now (run (concat (map (\<lambda>(g, ev). [Advance g, ev]) rest)) s) + 250)] \<and>
         rebuilds (run (concat (map (\<lambda>(g, ev). [Advance g, ev]) rest)) s) = rebuilds s"
  using assms
proof (induction rest arbitrary: s)
  case Nil
  then show ?case by (simp add: run_Nil)
next
  case (Cons x rest)
  obtain g ev where x: "x = (g, ev)" by (cases x)
  from Cons.prems(4) x have g: "g < 250" and tr: "is_trigger s ev"
    and rest: "\<forall>y \<in> set rest. fst y < 250 \<and> is_trigger s (snd y)" by simp_all
  define sa where "sa = s\<lparr>now := now s + g\<rparr>"
  have adv: "advance g s = sa"
    unfolding sa_def using g by (intro advance_not_due[OF Cons.prems(2)]) simp
  have inv_a: "chan_inv sa" using Cons.prems(1) by (simp add: sa_def chan_inv_def)
  have tinv: "timer_inv s" using Cons.prems(2,3) by (simp add: timer_inv_def)
  have tinv_a: "timer_inv sa" by (rule timer_inv_frame[OF tinv]) (simp_all add: sa_def)
  have tr_a: "is_trigger sa ev" using tr is_trigger_ports[of sa s ev] by (simp add: sa_def)
  define sb where "sb = step ev sa"
  note ts = trigger_step[OF inv_a tinv_a tr_a, folded sb_def]
  have inv_b: "chan_inv sb" unfolding sb_def by (rule chan_inv_step[OF inv_a])
  have pb: "ports sb = ports s" using ts by (simp add: sa_def)
  have rest_b: "\<forall>y \<in> set rest. fst y < 250 \<and> is_trigger sb (snd y)"
    using rest is_trigger_ports[OF pb] by simp
  have t_b: "timers sb = [(next_timer sb - 1, now sb + 250)]" using ts by simp
  have u_b: "updateContextMenuTimeout sb = Some (next_timer sb - 1)" using ts by simp
  have r_b: "rebuilds sb = rebuilds s" using ts by (simp add: sa_def rebuilds_def)
  have "run (concat (map (\<lambda>(g, ev). [Advance g, ev]) (x # rest))) s =
        run (concat (map (\<lambda>(g, ev). [Advance g, ev]) rest)) sb"
    by (simp add: x run_Cons adv sb_def)
  with Cons.IH[OF inv_b t_b u_b rest_b] r_b show ?case by simp
qed


text \<open>
  C9. Time is the clock \<open>now\<close>, in milliseconds; a timer set with delay 250 is due 250
  later and runs when an \<open>Advance\<close> reaches its due time. Take a reachable state and a
  burst of N \<open>\<ge>\<close> 1 refresh triggers, each less than 250 ms after the one before it. During
  the burst no rebuild runs and each trigger leaves exactly one pending timer, its own, in
  place of the one before. Once 250 ms or more have passed after the last trigger, exactly
  one rebuild has run, that of the last trigger's timer; it ran on the state the last
  trigger left (nothing else happens in between), so the menu follows the active tab's URL
  of that state; and no timer is pending. In every reachable state at most one timer is
  pending.
\<close>

theorem debounce_single_rebuild:
  assumes "s0 = run evs (init st tb)"
      and "\<forall>ev \<in> set (ev1 # map snd rest). is_trigger s0 ev"
      and "\<forall>g \<in> set (map fst rest). g < 250"
      and "250 \<le> d"
      and "s1 = run (burst ev1 rest) s0"
      and "s2 = step (Advance d) s1"
  shows "length (timers (run evs' (init st' tb'))) \<le> 1 \<and>
         timers (step ev1 s0) = [(next_timer s0, now s0 + 250)] \<and>
         timers s1 = [(next_timer s1 - 1, now s1 + 250)] \<and>
         rebuilds s1 = rebuilds s0 \<and>
         rebuilds s2 = rebuilds s0 @ [next_timer s1 - 1] \<and>
         timers s2 = [] \<and>
         s2 = (updateContextMenu_callback
                 (emit (TimerFired (next_timer s1 - 1)) (s1\<lparr>timers := []\<rparr>)))\<lparr>now := now s1 + d\<rparr> \<and>
         (fault s1 = NoFault \<longrightarrow>
            menus s2 = (if isSpecialUrl_bg (active_url s1) then [] else [''openPopup'']))"
proof -
  have cinv: "chan_inv s0" unfolding assms(1) by (rule chan_inv_reachable)
  have tinv: "timer_inv s0" unfolding assms(1) by (rule timer_inv_reachable)
  from assms(2) have tr1: "is_trigger s0 ev1" by simp
  define sb where "sb = step ev1 s0"
  note ts = trigger_step[OF cinv tinv tr1, folded sb_def]
  have inv_b: "chan_inv sb" unfolding sb_def by (rule chan_inv_step[OF cinv])
  have pb: "ports sb = ports s0" using ts by simp
  have rest_b: "\<forall>x \<in> set rest. fst x < 250 \<and> is_trigger sb (snd x)"
    using assms(2,3) is_trigger_ports[OF pb] by auto
  have t_b: "timers sb = [(next_timer sb - 1, now sb + 250)]" using ts by simp
  have u_b: "updateContextMenuTimeout sb = Some (next_timer sb - 1)" using ts by simp
  have s1: "s1 = run (concat (map (\<lambda>(g, ev). [Advance g, ev]) rest)) sb"
    unfolding assms(5) by (simp add: burst_def run_Cons sb_def)
  from burst_tail[OF inv_b t_b u_b rest_b, folded s1]
  have t1: "timers s1 = [(next_timer s1 - 1, now s1 + 250)]" and r1: "rebuilds s1 = rebuilds sb"
    by simp_all
  have due: "now s1 + 250 \<le> now s1 + d" using assms(4) by simp
  have s2: "s2 = (updateContextMenu_callback
                 (emit (TimerFired (next_timer s1 - 1)) (s1\<lparr>timers := []\<rparr>)))\<lparr>now := now s1 + d\<rparr>"
    unfolding assms(6) using advance_due[OF t1 due] by simp
  have r2: "rebuilds s2 = rebuilds s0 @ [next_timer s1 - 1]"
  proof -
    have "rebuilds s2 =
          rebuilds (updateContextMenu_callback (emit (TimerFired (next_timer s1 - 1)) (s1\<lparr>timers := []\<rparr>)))"
      unfolding s2 by (rule rebuilds_trace_eq) simp
    also have "\<dots> = rebuilds (emit (TimerFired (next_timer s1 - 1)) (s1\<lparr>timers := []\<rparr>))"
      by (rule rebuilds_callback)
    also have "\<dots> = rebuilds s1 @ [next_timer s1 - 1]"
      by (simp add: rebuilds_def emit_def)
    finally show ?thesis using r1 ts by simp
  qed
  have t2: "timers s2 = []" unfolding s2 by (simp add: callback_frame emit_def)
  have m2: "menus s2 = (if isSpecialUrl_bg (active_url s1) then [] else [''openPopup''])"
    if "fault s1 = NoFault"
  proof -
    have "fault (emit (TimerFired (next_timer s1 - 1)) (s1\<lparr>timers := []\<rparr>)) = NoFault"
      using that by (simp add: emit_def)
    from callback_menus[OF this] show ?thesis
      unfolding s2 by (simp add: active_url_def emit_def)
  qed
  show ?thesis
    using timer_inv_at_most_one[OF timer_inv_reachable[of evs' st' tb']] ts t1 r1 r2 t2 s2 m2
    by (simp add: sb_def)
qed


theorem debounce_single_rebuild_witness:
  "rebuilds (step (Advance 250)
      (run (burst (TabActivated \<lparr>tab_id = 7, tab_url = Some ''about:blank''\<rparr>)
                  [(100, TabUpdated 7 (Some ''https://example.com'')),
                   (200, PortMessage 0 (JObj [(''type'', JStr ''devices''), (''data'', JArr [])]))])
           (run [OnInstalled True] (init Map.empty None)))) = [2] \<and>
   menus (step (Advance 250)
      (run (burst (TabActivated \<lparr>tab_id = 7, tab_url = Some ''about:blank''\<rparr>)
                  [(100, TabUpdated 7 (Some ''https://example.com'')),
                   (200, PortMessage 0 (JObj [(''type'', JStr ''devices''), (''data'', JArr [])]))])
           (run [OnInstalled True] (init Map.empty None)))) = [''openPopup'']"
proof -
  define s0 where "s0 = run [OnInstalled True] (init Map.empty None)"
  define ev1 where "ev1 = TabActivated \<lparr>tab_id = 7, tab_url = Some ''about:blank''\<rparr>"
  define rest where "rest = [(100::nat, TabUpdated 7 (Some ''https://example.com'')),
                   (200, PortMessage 0 (JObj [(''type'', JStr ''devices''), (''data'', JArr [])]))]"
  define s1 where "s1 = run (burst ev1 rest) s0"
  define s2 where "s2 = step (Advance 250) s1"
  have s0: "s0 = \<lparr>nmhPort = Some 0, updateContextMenuTimeout = None,
                 ports = [\<lparr>port_open = True, onDisconnect = [OnNMHDisconnect],
                           onMessage = [HandleNMHMessage]\<rparr>],
                 storage = Map.empty, timers = [], next_timer = 0, now = 0,
                 active_tab = None, menus = [], fault = NoFault, awaiting = [],
                 trace = [ConnectNative APPLICATION_ID 0, TabsQuery]\<rparr>"
    by (simp add: s0_def run_def init_def initializeState_def connectToNMH_def prim_defs)
  have h2: "\<forall>ev \<in> set (ev1 # map snd rest). is_trigger s0 ev"
    by (simp add: s0 ev1_def rest_def)
  have h3: "\<forall>g \<in> set (map fst rest). g < 250" by (simp add: rest_def)
  have h4: "(250::nat) \<le> 250" by simp
  note th = debounce_single_rebuild[OF s0_def h2 h3 h4 s1_def s2_def]
  have r0: "rebuilds s0 = []" by (simp add: s0 rebuilds_def)
  have s1: "next_timer s1 = 3 \<and> fault s1 = NoFault \<and> active_url s1 = Some ''https://example.com''"
    by (simp add: s1_def burst_def ev1_def rest_def run_def s0 advance_def updateContextMenu_eq
          updateIconState_emit emit_def tab_navigated_def deliver_message_def handleNMHMessage_unfold
          storage_local_set_def active_url_def)
  have ns: "\<not> isSpecialUrl_bg (Some ''https://example.com'')"
    by (simp add: isSpecialUrl_bg_def SPECIAL_PROTOCOLS_def startsWith_def)
  from th[of "[]" Map.empty None]
  have a: "rebuilds s2 = rebuilds s0 @ [next_timer s1 - 1]"
    and b: "fault s1 = NoFault \<longrightarrow>
            menus s2 = (if isSpecialUrl_bg (active_url s1) then [] else [''openPopup''])"
    by blast+
  from a b r0 s1 ns have "rebuilds s2 = [2] \<and> menus s2 = [''openPopup'']" by simp
  then show ?thesis unfolding s2_def s1_def s0_def ev1_def rest_def .
qed

end
